theory Spec2Isabelle
  imports Complex_Main
begin

unbundle bit_operations_syntax

section \<open>Data model of the HCCB generator (hccbSvg.py)\<close>

text \<open>
  Python floats are modelled as exact reals (the decimal literals of the source as the
  rationals they denote), Python exceptions as values of \<open>error\<close>, and a function that
  may raise returns \<open>error + 'a\<close> with \<open>Inl\<close> for the exception.
\<close>

datatype error = ZeroDivisionError | IndexError | ValueError | KeyError | ReedSolomonError

record Point =
  x_coord :: real
  y_coord :: real

record Dim =
  width :: real
  height :: real

record Rect =
  point :: Point
  dim :: Dim

record Pad =
  left :: real
  right :: real
  top_pad :: real
  bottom :: real

record Size =
  rows :: nat
  cols :: nat

record Specification =
  bits :: nat
  grid_size :: Size
  white_frame_pad :: Pad
  black_background_pad :: Pad
  white_strip_height :: real
  row_inset :: real
  triangle_dim :: Dim

text \<open>Positional constructors, in the field order of the dataclasses.\<close>

definition mkPoint :: "real \<Rightarrow> real \<Rightarrow> Point" where
  "mkPoint px py = \<lparr>x_coord = px, y_coord = py\<rparr>"

definition mkDim :: "real \<Rightarrow> real \<Rightarrow> Dim" where
  "mkDim w h = \<lparr>width = w, height = h\<rparr>"

definition mkPad :: "real \<Rightarrow> real \<Rightarrow> real \<Rightarrow> real \<Rightarrow> Pad" where
  "mkPad l r t b = \<lparr>left = l, right = r, top_pad = t, bottom = b\<rparr>"

definition scale_pad :: "real \<Rightarrow> Pad \<Rightarrow> Pad" where
  \<comment> \<open>\<open>Pad(*(p * k for p in astuple(pad)))\<close>\<close>
  "scale_pad k p = mkPad (left p * k) (right p * k) (top_pad p * k) (bottom p * k)"

definition scale_dim :: "real \<Rightarrow> Dim \<Rightarrow> Dim" where
  \<comment> \<open>\<open>Dim(*(d * k for d in astuple(dim)))\<close>\<close>
  "scale_dim k d = mkDim (width d * k) (height d * k)"

section \<open>Total dimensions\<close>

definition triangle_row_dim :: "Specification \<Rightarrow> Dim" where
  "triangle_row_dim spec =
     mkDim (width (triangle_dim spec) * real (cols (grid_size spec)) / 2)
           (height (triangle_dim spec) + white_strip_height spec)"

definition barcode_dim :: "Specification \<Rightarrow> Dim" where
  "barcode_dim spec =
     (let row_dim = triangle_row_dim spec;
          w = left (white_frame_pad spec)
              + left (black_background_pad spec)
              + row_inset spec
              + width row_dim
              + row_inset spec
              + right (black_background_pad spec)
              + right (white_frame_pad spec);
          h = top_pad (white_frame_pad spec)
              + top_pad (black_background_pad spec)
              + (height row_dim * real (rows (grid_size spec) + 1))
              + bottom (white_frame_pad spec)
      in mkDim w h)"

text \<open>
  The total-dimension formula as the specification words it, for comparison with
  \<open>barcode_dim\<close>.
\<close>

definition spec_total_width :: "Specification \<Rightarrow> real" where
  "spec_total_width spec =
     left (white_frame_pad spec) + right (white_frame_pad spec)
     + left (black_background_pad spec) + right (black_background_pad spec)
     + 2 * row_inset spec
     + width (triangle_dim spec) * real (cols (grid_size spec)) / 2"

definition spec_total_height :: "Specification \<Rightarrow> real" where
  "spec_total_height spec =
     top_pad (white_frame_pad spec) + bottom (white_frame_pad spec)
     + top_pad (black_background_pad spec) + bottom (black_background_pad spec)
     + real (rows (grid_size spec) + 1) * (height (triangle_dim spec) + white_strip_height spec)"

section \<open>Specification Calculator\<close>

definition base_spec :: Specification where
  "base_spec =
     \<lparr>bits = 3,
      grid_size = \<lparr>rows = 12, cols = 24\<rparr>,
      white_frame_pad = mkPad (2087 / 100) (2087 / 100) (2087 / 100) (2087 / 100),
      black_background_pad = mkPad (894 / 100) (894 / 100) (894 / 100) (894 / 100),
      white_strip_height = 596 / 100,
      row_inset = 596 / 100,
      triangle_dim = mkDim (2548 / 100) (2087 / 100)\<rparr>"

definition required_triangles :: "nat \<Rightarrow> nat" where
  \<comment> \<open>\<open>math.ceil(data_length * 8 / base_spec.bits)\<close>\<close>
  "required_triangles data_length =
     nat \<lceil>real (data_length * 8) / real (bits base_spec)\<rceil>"

definition required_rows :: "nat \<Rightarrow> nat" where
  \<comment> \<open>\<open>math.ceil(required_triangles / cols)\<close>\<close>
  "required_rows data_length =
     nat \<lceil>real (required_triangles data_length) / real (cols (grid_size base_spec))\<rceil>"

definition scale_spec :: "real \<Rightarrow> Specification \<Rightarrow> Specification" where
  \<comment> \<open>every linear dimension multiplied by \<open>k\<close>; \<open>bits\<close> and the grid size are kept\<close>
  "scale_spec k spec =
     \<lparr>bits = bits spec,
      grid_size = grid_size spec,
      white_frame_pad = scale_pad k (white_frame_pad spec),
      black_background_pad = scale_pad k (black_background_pad spec),
      white_strip_height = white_strip_height spec * k,
      row_inset = row_inset spec * k,
      triangle_dim = scale_dim k (triangle_dim spec)\<rparr>"

definition py_div :: "real \<Rightarrow> real \<Rightarrow> error + real" where
  \<comment> \<open>Python's \<open>/\<close>: a zero divisor raises\<close>
  "py_div a b = (if b = 0 then Inl ZeroDivisionError else Inr (a / b))"

definition calculate_dynamic_spec :: "nat \<Rightarrow> real \<Rightarrow> real \<Rightarrow> error + Specification" where
  "calculate_dynamic_spec data_length max_width max_height =
     (let cols' = cols (grid_size base_spec);
          rows' = required_rows data_length;
          scale_factor = sqrt (real rows' / real (rows (grid_size base_spec)));
          spec = scale_spec scale_factor (base_spec\<lparr>grid_size := \<lparr>rows = rows', cols = cols'\<rparr>\<rparr>);
          barcode_dimensions = barcode_dim spec
      in case py_div max_width (width barcode_dimensions) of
           Inl e \<Rightarrow> Inl e
         | Inr width_scale \<Rightarrow>
            (case py_div max_height (height barcode_dimensions) of
               Inl e \<Rightarrow> Inl e
             | Inr height_scale \<Rightarrow>
                 Inr (scale_spec (min width_scale height_scale) spec)))"

section \<open>Symbol alphabet and bit-colour packer (encode side)\<close>

definition BLACK :: string where "BLACK = ''#000000''"
definition WHITE :: string where "WHITE = ''#FFFFFF''"

definition FOUR_COLOR_MAP :: "string list" where
  "FOUR_COLOR_MAP = [''#000000'', ''#FFFF45'', ''#12FF0E'', ''#FF1400'']"

definition EIGHT_COLOR_MAP :: "string list" where
  "EIGHT_COLOR_MAP =
     [''#000000'', ''#FAFD28'', ''#1CEC12'', ''#DF0203'',
      ''#FAFAFA'', ''#1EF6EE'', ''#F38BED'', ''#1833DE'']"

definition color_map_of :: "nat \<Rightarrow> string list" where
  \<comment> \<open>\<open>FOUR_COLOR_MAP if bits == 2 else EIGHT_COLOR_MAP\<close>\<close>
  "color_map_of b = (if b = 2 then FOUR_COLOR_MAP else EIGHT_COLOR_MAP)"

definition mask_of :: "nat \<Rightarrow> nat" where
  "mask_of b = (if b = 2 then 3 else 7)"

definition shift_of :: "nat \<Rightarrow> nat" where
  "shift_of b = (if b = 2 then 2 else 3)"

definition symbol_index :: "nat \<Rightarrow> nat \<Rightarrow> nat \<Rightarrow> nat" where
  \<comment> \<open>\<open>index = (value >> (i * shift)) & mask\<close>\<close>
  "symbol_index b v i = drop_bit (i * shift_of b) v AND mask_of b"

definition symbol_indices :: "nat \<Rightarrow> nat list \<Rightarrow> nat list" where
  \<comment> \<open>the indices computed by the two loops of \<open>data_to_colors\<close>, in the order of the appends\<close>
  "symbol_indices b data =
     concat (map (\<lambda>v. map (\<lambda>i. symbol_index b v i) [0..<8 div b]) data)"

definition data_to_colors :: "nat \<Rightarrow> nat list \<Rightarrow> error + string list" where
  \<comment> \<open>\<open>8 // bits\<close> raises for \<open>bits = 0\<close>, once the outer loop has a value to work on\<close>
  "data_to_colors b data =
     (if b = 0 \<and> data \<noteq> [] then Inl ZeroDivisionError
      else Inr (map (\<lambda>index. color_map_of b ! index) (symbol_indices b data)))"

definition colors_prefix :: "nat \<Rightarrow> string list" where
  \<comment> \<open>\<open>colors * 2\<close>\<close>
  "colors_prefix b = color_map_of b @ color_map_of b"

definition colored_data :: "nat \<Rightarrow> nat list \<Rightarrow> error + string list" where
  \<comment> \<open>\<open>colors_prefix(spec.bits) + data_to_colors(spec.bits, encoded_data)\<close> in \<open>barcode\<close>\<close>
  "colored_data b encoded_data =
     (case data_to_colors b encoded_data of
        Inl e \<Rightarrow> Inl e
      | Inr cs \<Rightarrow> Inr (colors_prefix b @ cs))"

section \<open>Drawing\<close>

text \<open>
  The svgwrite drawing is modelled by the list of the shapes added to it, each shape by
  the arguments it is built from.
\<close>

datatype element =
  Path string string real Dim Point
  | Rectangle string Rect

record row_spec =
  rs_width :: real
  rs_inset :: real
  rs_strip_height :: real
  rs_space_height :: real

definition py_index :: "'a list \<Rightarrow> nat \<Rightarrow> error + 'a" where
  \<comment> \<open>\<open>xs[i]\<close> for an index that is not negative\<close>
  "py_index xs i = (if i < length xs then Inr (xs ! i) else Inl IndexError)"

definition draw_triangle ::
  "element list \<Rightarrow> string \<Rightarrow> string \<Rightarrow> real \<Rightarrow> Dim \<Rightarrow> Point \<Rightarrow> element list" where
  "draw_triangle dwg direction fill strip_height tdim corner =
     dwg @ [Path direction fill strip_height tdim corner]"

definition triangle_for :: "Specification \<Rightarrow> Point \<Rightarrow> nat \<Rightarrow> nat \<Rightarrow> string \<Rightarrow> element" where
  \<comment> \<open>the shape that the body of the loops of \<open>draw_triangles\<close> adds for the cell \<open>(i, j)\<close>,
      once the colour of the cell is read\<close>
  "triangle_for spec corner i j color =
     Path (if j mod 2 = 0 then ''up'' else ''down'') color
       (white_strip_height spec) (triangle_dim spec)
       (mkPoint
          (x_coord corner
           + real_of_int (int (cols (grid_size spec)) - int j - 1)
             * (width (triangle_dim spec) / 2))
          (y_coord corner
           + real_of_int (int (rows (grid_size spec)) - int i - 1)
             * (white_strip_height spec + height (triangle_dim spec))))"

definition draw_rect :: "element list \<Rightarrow> string \<Rightarrow> Rect \<Rightarrow> element list" where
  "draw_rect dwg fill rect = dwg @ [Rectangle fill rect]"

definition draw_frame :: "element list \<Rightarrow> Rect \<Rightarrow> Rect \<Rightarrow> element list" where
  "draw_frame dwg outside inside = draw_rect (draw_rect dwg WHITE outside) BLACK inside"

definition get_row_spec :: "Specification \<Rightarrow> row_spec" where
  "get_row_spec spec =
     \<lparr>rs_width = width (triangle_row_dim spec),
      rs_inset = row_inset spec,
      rs_strip_height = white_strip_height spec,
      rs_space_height = height (triangle_dim spec)\<rparr>"

fun draw_cells ::
  "Specification \<Rightarrow> Point \<Rightarrow> string list \<Rightarrow> (nat \<times> nat) list \<Rightarrow> element list
     \<Rightarrow> error + element list" where
  "draw_cells spec corner data [] dwg = Inr dwg"
| "draw_cells spec corner data ((i, j) # cells) dwg =
     (let direction = (if j mod 2 = 0 then ''up'' else ''down'') in
      case py_index data (i * cols (grid_size spec) + j) of
        Inl e \<Rightarrow> Inl e
      | Inr color \<Rightarrow>
          (let px = x_coord corner
                    + real_of_int (int (cols (grid_size spec)) - int j - 1)
                      * (width (triangle_dim spec) / 2);
               py = y_coord corner
                    + real_of_int (int (rows (grid_size spec)) - int i - 1)
                      * (rs_strip_height (get_row_spec spec) + rs_space_height (get_row_spec spec))
           in draw_cells spec corner data cells
                (draw_triangle dwg direction color (white_strip_height spec)
                   (triangle_dim spec) (mkPoint px py))))"

definition draw_triangles ::
  "element list \<Rightarrow> Specification \<Rightarrow> Point \<Rightarrow> string list \<Rightarrow> error + element list" where
  \<comment> \<open>the two nested \<open>range\<close> loops visit the cells row by row\<close>
  "draw_triangles dwg spec corner data =
     draw_cells spec corner data
       (List.product [0..<rows (grid_size spec)] [0..<cols (grid_size spec)]) dwg"

definition draw_strips :: "element list \<Rightarrow> row_spec \<Rightarrow> Point \<Rightarrow> Size \<Rightarrow> element list" where
  "draw_strips dwg rspec corner sz =
     (let extra_pad = mkPad (13 / 10) (18 / 10) 0 0;
          strip_dim = mkDim (rs_width rspec + rs_inset rspec * 2 + left extra_pad + right extra_pad)
                            (rs_strip_height rspec)
      in foldl (\<lambda>d row.
            draw_rect d WHITE
              \<lparr>point = mkPoint (x_coord corner - left extra_pad)
                               (y_coord corner
                                + real row * (rs_strip_height rspec + rs_space_height rspec)),
               dim = strip_dim\<rparr>)
          dwg [0..<rows sz + 1])"

section \<open>Error-correction framing and the encode orchestrator\<close>

text \<open>
  The Reed-Solomon codec is the external library \<open>reedsolo\<close>; it is a parameter of the
  model: the constructor \<open>RSCodec(n)\<close> and the methods \<open>encode\<close> and \<open>decode\<close> of the object
  it returns, each of which may raise.
\<close>

record 'c reedsolo =
  RSCodec :: "nat \<Rightarrow> error + 'c"
  rs_encode :: "'c \<Rightarrow> nat list \<Rightarrow> error + nat list"
  rs_decode :: "'c \<Rightarrow> nat list \<Rightarrow> error + nat list"

definition apply_reed_solomon :: "'c reedsolo \<Rightarrow> nat list \<Rightarrow> nat \<Rightarrow> error + nat list" where
  \<comment> \<open>\<open>bytes(data)\<close> raises unless every value is below 256\<close>
  "apply_reed_solomon lib data ecc_symbols =
     (case RSCodec lib ecc_symbols of
        Inl e \<Rightarrow> Inl e
      | Inr rs \<Rightarrow>
          if list_all (\<lambda>v. v < 256) data then rs_encode lib rs data else Inl ValueError)"

text \<open>
  Modelled from the spec: the Reed-Solomon framer itself, which is the library and not
  under src/. The specification has it return the payload followed by the parity bytes,
  at most 255 bytes for each codeword, a longer payload being split into blocks. With
  \<open>n\<close> parity bytes a block holds at most \<open>255 - n\<close> payload bytes and is followed by its own
  \<open>n\<close> parity bytes. Only the lengths matter for the drawing, so the parity bytes are
  written as zeros.
\<close>

function blocks_of :: "nat \<Rightarrow> nat list \<Rightarrow> nat list list" where
  "blocks_of k bs = (if k = 0 \<or> bs = [] then [] else take k bs # blocks_of k (drop k bs))"
  by pat_completeness auto
termination
  by (relation "measure (\<lambda>(k, bs). length bs)") auto

declare blocks_of.simps [simp del]

definition frame_blocks :: "nat \<Rightarrow> nat list \<Rightarrow> nat list" where
  "frame_blocks n d = concat (map (\<lambda>blk. blk @ replicate n 0) (blocks_of (255 - n) d))"

definition unframe_blocks :: "nat \<Rightarrow> nat list \<Rightarrow> nat list" where
  "unframe_blocks n d = concat (map (\<lambda>blk. take (length blk - n) blk) (blocks_of 255 d))"

definition block_framer :: "nat reedsolo" where
  "block_framer =
     \<lparr>RSCodec = (\<lambda>n. if n < 255 then Inr n else Inl ValueError),
      rs_encode = (\<lambda>n d. Inr (frame_blocks n d)),
      rs_decode = (\<lambda>n d. Inr (unframe_blocks n d))\<rparr>"

definition ecc_symbols_of :: "string \<Rightarrow> nat \<Rightarrow> error + nat" where
  \<comment> \<open>the dictionary of \<open>barcode\<close>, indexed by the level; \<open>n\<close> is \<open>len(data)\<close>\<close>
  "ecc_symbols_of level n =
     (if level = ''L'' then Inr (max 7 (n div 5))
      else if level = ''M'' then Inr (max 10 (n div 4))
      else if level = ''Q'' then Inr (max 13 (n div 3))
      else if level = ''H'' then Inr (max 17 (n div 2))
      else Inl KeyError)"

definition inner_padded_corner :: "Specification \<Rightarrow> Point" where
  \<comment> \<open>\<open>inner_padded_rect.point\<close> of \<open>barcode\<close>: the corner handed to the triangle drawer\<close>
  "inner_padded_corner spec =
     mkPoint (left (white_frame_pad spec) + left (black_background_pad spec))
             (top_pad (white_frame_pad spec) + top_pad (black_background_pad spec))"

definition barcode ::
  "'c reedsolo \<Rightarrow> Specification \<Rightarrow> real \<Rightarrow> real \<Rightarrow> nat list \<Rightarrow> string
     \<Rightarrow> error + (real \<times> real) \<times> element list" where
  "barcode lib spec w h data error_correction_level =
     (case ecc_symbols_of error_correction_level (length data) of
        Inl e \<Rightarrow> Inl e
      | Inr ecc_symbols \<Rightarrow>
     (case apply_reed_solomon lib data ecc_symbols of
        Inl e \<Rightarrow> Inl e
      | Inr encoded_data \<Rightarrow>
     (let d = barcode_dim spec;
          outer_rect = \<lparr>point = mkPoint 0 0, dim = d\<rparr>;
          inner_rect =
            \<lparr>point = mkPoint (left (white_frame_pad spec)) (top_pad (white_frame_pad spec)),
             dim = mkDim (width d - left (white_frame_pad spec) - right (white_frame_pad spec))
                         (height d - top_pad (white_frame_pad spec) - bottom (white_frame_pad spec))\<rparr>;
          inner_padded_rect =
            \<lparr>point = mkPoint (x_coord (point inner_rect) + left (black_background_pad spec))
                             (y_coord (point inner_rect) + top_pad (black_background_pad spec)),
             dim = mkDim (width (dim inner_rect)
                          - left (black_background_pad spec) - right (black_background_pad spec))
                         (height (dim inner_rect)
                          - top_pad (black_background_pad spec) - bottom (black_background_pad spec))\<rparr>;
          dwg = draw_frame [] outer_rect inner_rect;
          rspec = get_row_spec spec
      in case colored_data (bits spec) encoded_data of
           Inl e \<Rightarrow> Inl e
         | Inr cdata \<Rightarrow>
        (case draw_triangles dwg spec (point inner_padded_rect) cdata of
           Inl e \<Rightarrow> Inl e
         | Inr dwg' \<Rightarrow>
             Inr ((w, h), draw_strips dwg' rspec (point inner_padded_rect) (grid_size spec))))))"

definition generate_hccb ::
  "'c reedsolo \<Rightarrow> nat list \<Rightarrow> real \<Rightarrow> real \<Rightarrow> string
     \<Rightarrow> error + (real \<times> real) \<times> element list" where
  \<comment> \<open>\<open>data\<close> is the payload as the list of its bytes\<close>
  "generate_hccb lib data w h error_correction_level =
     (case calculate_dynamic_spec (length data) w h of
        Inl e \<Rightarrow> Inl e
      | Inr spec \<Rightarrow> barcode lib spec w h data error_correction_level)"

section \<open>Colour classifier and decoding (hccb\_reader.py)\<close>

type_synonym color = "real \<times> real \<times> real"

record Image =
  img_height :: nat
  img_width :: nat
  pixel :: "nat \<Rightarrow> nat \<Rightarrow> color"

definition READER_FOUR_COLOR_MAP :: "color list" where
  "READER_FOUR_COLOR_MAP = [(0, 0, 0), (255, 255, 69), (18, 255, 14), (255, 20, 0)]"

definition READER_EIGHT_COLOR_MAP :: "color list" where
  "READER_EIGHT_COLOR_MAP =
     [(0, 0, 0), (250, 253, 40), (28, 236, 18), (223, 2, 3),
      (250, 250, 250), (30, 246, 238), (243, 139, 237), (24, 51, 222)]"

definition euclidean :: "color \<Rightarrow> color \<Rightarrow> real" where
  \<comment> \<open>\<open>np.linalg.norm(np.array(c) - color)\<close> and \<open>distance.euclidean(color, rgb)\<close>\<close>
  "euclidean c d =
     (case c of (c0, c1, c2) \<Rightarrow> case d of (d0, d1, d2) \<Rightarrow>
        sqrt ((c0 - d0)\<^sup>2 + (c1 - d1)\<^sup>2 + (c2 - d2)\<^sup>2))"

fun min_from :: "('a \<Rightarrow> real) \<Rightarrow> 'a \<Rightarrow> 'a list \<Rightarrow> 'a" where
  \<comment> \<open>the scan of Python's \<open>min\<close>: a later element replaces the best one only when its key
      is strictly smaller\<close>
  "min_from key best [] = best"
| "min_from key best (x # xs) = min_from key (if key x < key best then x else best) xs"

definition py_min :: "('a \<Rightarrow> real) \<Rightarrow> 'a list \<Rightarrow> error + 'a" where
  \<comment> \<open>\<open>min(xs, key=key)\<close>; an empty sequence raises\<close>
  "py_min key xs = (case xs of [] \<Rightarrow> Inl ValueError | x # rest \<Rightarrow> Inr (min_from key x rest))"

fun list_index :: "'a list \<Rightarrow> 'a \<Rightarrow> error + nat" where
  \<comment> \<open>\<open>xs.index(v)\<close>: the first position of \<open>v\<close>; raises when there is none\<close>
  "list_index [] v = Inl ValueError"
| "list_index (x # xs) v =
     (if x = v then Inr 0
      else case list_index xs v of Inl e \<Rightarrow> Inl e | Inr n \<Rightarrow> Inr (Suc n))"

definition closest_index :: "color list \<Rightarrow> color \<Rightarrow> error + nat" where
  \<comment> \<open>the classification of one sample in \<open>recognize_hccb\<close>\<close>
  "closest_index color_map c =
     (case py_min (\<lambda>p. euclidean p c) color_map of
        Inl e \<Rightarrow> Inl e
      | Inr closest_color \<Rightarrow> list_index color_map closest_color)"

definition block_mean :: "Image \<Rightarrow> nat \<Rightarrow> nat \<Rightarrow> color" where
  \<comment> \<open>\<open>hccb_code[y : y + 25, x : x + 25].mean(axis=(0, 1))\<close>; a slice stops at the border of
      the array\<close>
  "block_mean img y x =
     (let ys = [y..<min (y + 25) (img_height img)];
          xs = [x..<min (x + 25) (img_width img)];
          ps = concat (map (\<lambda>yy. map (\<lambda>xx. pixel img yy xx) xs) ys);
          n = real (length ps)
      in (sum_list (map fst ps) / n,
          sum_list (map (\<lambda>p. fst (snd p)) ps) / n,
          sum_list (map (\<lambda>p. snd (snd p)) ps) / n))"

fun classify_cells :: "color list \<Rightarrow> Image \<Rightarrow> (nat \<times> nat) list \<Rightarrow> error + nat list" where
  "classify_cells color_map img [] = Inr []"
| "classify_cells color_map img ((i, j) # cells) =
     (case closest_index color_map (block_mean img (i * 25) (j * 25)) of
        Inl e \<Rightarrow> Inl e
      | Inr k \<Rightarrow>
          (case classify_cells color_map img cells of
             Inl e \<Rightarrow> Inl e
           | Inr ks \<Rightarrow> Inr (k # ks)))"

definition reader_color_map :: "nat \<Rightarrow> color list" where
  \<comment> \<open>\<open>EIGHT_COLOR_MAP if bits == 3 else FOUR_COLOR_MAP\<close>\<close>
  "reader_color_map b = (if b = 3 then READER_EIGHT_COLOR_MAP else READER_FOUR_COLOR_MAP)"

definition recognize_hccb :: "Image \<Rightarrow> nat \<Rightarrow> error + nat list" where
  "recognize_hccb hccb_code b =
     (let color_map = reader_color_map b;
          rows' = img_height hccb_code div 25;
          cols' = img_width hccb_code div 25
      in classify_cells color_map hccb_code (List.product [0..<rows'] [0..<cols']))"

definition restore_bytes :: "nat \<Rightarrow> nat list \<Rightarrow> nat list" where
  \<comment> \<open>the bytearray that \<open>restore_data\<close> fills: one byte \<open>(value & mask) << shift\<close> for each
      symbol\<close>
  "restore_bytes b data = map (\<lambda>v. push_bit (shift_of b) (v AND mask_of b)) data"

definition restore_data :: "'c reedsolo \<Rightarrow> nat list \<Rightarrow> nat \<Rightarrow> nat \<Rightarrow> error + nat list" where
  \<comment> \<open>a \<open>ReedSolomonError\<close> of \<open>decode\<close> is caught and raised again as a \<open>ValueError\<close>\<close>
  "restore_data lib data b ecc_symbols =
     (case RSCodec lib ecc_symbols of
        Inl e \<Rightarrow> Inl e
      | Inr rs \<Rightarrow>
          (case rs_decode lib rs (restore_bytes b data) of
             Inl e \<Rightarrow> (if e = ReedSolomonError then Inl ValueError else Inl e)
           | Inr restored_data \<Rightarrow> Inr restored_data))"

section \<open>Colour classifier and decoding (hccb-opencv.py)\<close>

definition COLOR_MAP :: "(string \<times> color) list" where
  \<comment> \<open>the dictionary, in insertion order\<close>
  "COLOR_MAP =
     [(''BLACK'', (0, 0, 0)), (''YELLOW'', (0, 255, 255)), (''GREEN'', (0, 255, 0)),
      (''RED'', (0, 0, 255)), (''WHITE'', (255, 255, 255)), (''CYAN'', (255, 255, 0)),
      (''PINK'', (203, 192, 255)), (''BLUE'', (255, 0, 0))]"

definition COLOR_LIST :: "string list" where
  "COLOR_LIST = map fst COLOR_MAP"

definition classify_color :: "Image \<Rightarrow> nat \<Rightarrow> nat \<Rightarrow> error + string" where
  \<comment> \<open>\<open>image[y, x]\<close> raises outside the array; \<open>min\<close> runs over the keys of \<open>distances\<close>, in
      insertion order, each key compared by its own distance\<close>
  "classify_color img px py =
     (if py < img_height img \<and> px < img_width img then
        (let c = pixel img py px;
             distances = map (\<lambda>(name, rgb). (name, euclidean c rgb)) COLOR_MAP
         in case py_min snd distances of
              Inl e \<Rightarrow> Inl e
            | Inr entry \<Rightarrow> Inr (fst entry))
      else Inl IndexError)"

fun bin_digits :: "nat \<Rightarrow> nat list" where
  \<comment> \<open>the binary digits of a number, most significant first; \<open>0\<close> is the one digit 0\<close>
  "bin_digits n = (if n < 2 then [n] else bin_digits (n div 2) @ [n mod 2])"

declare bin_digits.simps [simp del]

definition format_b :: "nat \<Rightarrow> nat \<Rightarrow> nat list" where
  \<comment> \<open>\<open>[int(x) for x in f"{n:0wb}"]\<close>: zeros in front up to the width \<open>w\<close>\<close>
  "format_b w n = replicate (w - length (bin_digits n)) 0 @ bin_digits n"

definition symbol_bits :: "string \<Rightarrow> error + nat list" where
  \<comment> \<open>the bits one colour adds: its position in \<open>COLOR_LIST\<close>, two digits wide for the first
      four colours and three digits wide for the others; an unknown name raises\<close>
  "symbol_bits c =
     (case list_index COLOR_LIST c of
        Inl e \<Rightarrow> Inl e
      | Inr k \<Rightarrow>
          Inr (if c \<in> set [''BLACK'', ''YELLOW'', ''GREEN'', ''RED'']
               then format_b 2 k else format_b 3 k))"

fun color_bits :: "string list \<Rightarrow> error + nat list" where
  \<comment> \<open>the bits collected by the two loops of \<open>decode_colors\<close>, over the colours of all rows\<close>
  "color_bits [] = Inr []"
| "color_bits (c # cs) =
     (case symbol_bits c of
        Inl e \<Rightarrow> Inl e
      | Inr ds \<Rightarrow>
          (case color_bits cs of
             Inl e \<Rightarrow> Inl e
           | Inr rest \<Rightarrow> Inr (ds @ rest)))"

definition from_binary :: "nat list \<Rightarrow> nat" where
  \<comment> \<open>\<open>int("".join(map(str, group)), 2)\<close>\<close>
  "from_binary ds = foldl (\<lambda>acc d. 2 * acc + d) 0 ds"

function groups_of_8 :: "nat list \<Rightarrow> nat list list" where
  \<comment> \<open>\<open>bits[i : i + 8] for i in range(0, len(bits), 8)\<close>\<close>
  "groups_of_8 bs = (if bs = [] then [] else take 8 bs # groups_of_8 (drop 8 bs))"
  by pat_completeness auto
termination
  by (relation "measure length") auto

declare groups_of_8.simps [simp del]

definition decode_colors :: "string list list \<Rightarrow> error + nat list" where
  "decode_colors color_grid =
     (case color_bits (concat color_grid) of
        Inl e \<Rightarrow> Inl e
      | Inr bs \<Rightarrow> Inr (map from_binary (groups_of_8 bs)))"

section \<open>Total dimensions: proofs\<close>

lemma width_barcode_dim:
  "width (barcode_dim spec) =
     left (white_frame_pad spec) + left (black_background_pad spec) + row_inset spec
     + width (triangle_dim spec) * real (cols (grid_size spec)) / 2
     + row_inset spec + right (black_background_pad spec) + right (white_frame_pad spec)"
  by (simp add: barcode_dim_def triangle_row_dim_def mkDim_def Let_def)

lemma height_barcode_dim:
  "height (barcode_dim spec) =
     top_pad (white_frame_pad spec) + top_pad (black_background_pad spec)
     + (height (triangle_dim spec) + white_strip_height spec) * real (rows (grid_size spec) + 1)
     + bottom (white_frame_pad spec)"
  by (simp add: barcode_dim_def triangle_row_dim_def mkDim_def Let_def)

text \<open>
  C5. The width is the sum the specification gives. The height is not: it has the top and
  bottom frame pads, the rows and the top background pad, and lacks the bottom background
  pad, so it is smaller than the specified height by exactly that pad.
\<close>

theorem barcode_dim_height_lacks_bottom_background_pad:
  "width (barcode_dim spec) = spec_total_width spec
   \<and> height (barcode_dim spec) = spec_total_height spec - bottom (black_background_pad spec)"
  by (simp add: width_barcode_dim height_barcode_dim spec_total_width_def spec_total_height_def
      algebra_simps)

text \<open>On the base template the heights are 399.47 and 408.41.\<close>

lemma barcode_dim_base_spec:
  "height (barcode_dim base_spec) = 39947 / 100 \<and> spec_total_height base_spec = 40841 / 100"
  by (simp add: height_barcode_dim spec_total_height_def base_spec_def mkPad_def mkDim_def)

lemma barcode_dim_scale_spec:
  "width (barcode_dim (scale_spec k spec)) = width (barcode_dim spec) * k"
  "height (barcode_dim (scale_spec k spec)) = height (barcode_dim spec) * k"
  by (simp_all add: width_barcode_dim height_barcode_dim scale_spec_def scale_pad_def
      scale_dim_def mkPad_def mkDim_def algebra_simps)

section \<open>Specification Calculator: proofs\<close>

lemma nat_ceiling_divide:
  assumes "0 < b"
  shows "nat \<lceil>real a / real b\<rceil> = (a + b - 1) div b"
proof -
  define q where "q = (a + b - 1) div b"
  have "q * b \<le> a + b - 1"
    by (simp add: q_def)
  then have "real q * real b \<le> real (a + b - 1)"
    by (metis of_nat_le_iff of_nat_mult)
  also have "\<dots> = real a + real b - 1"
    using assms by (simp add: of_nat_diff)
  finally have lower: "(real q - 1) * real b < real a"
    by (simp add: algebra_simps)
  have "a + b - 1 < b + q * b"
    unfolding q_def using assms by (rule dividend_less_div_times)
  then have "a \<le> q * b"
    using assms by simp
  then have "real a \<le> real q * real b"
    by (metis of_nat_le_iff of_nat_mult)
  then have upper: "real a / real b \<le> real q"
    using assms by (simp add: pos_divide_le_eq)
  from lower have "real q - 1 < real a / real b"
    using assms by (simp add: pos_less_divide_eq)
  with upper have "\<lceil>real a / real b\<rceil> = int q"
    by (intro ceiling_unique) simp_all
  then show ?thesis
    by (simp add: q_def)
qed

lemma required_triangles_eq: "required_triangles L = (L * 8 + 2) div 3"
  using nat_ceiling_divide [of 3 "L * 8"]
  by (simp add: required_triangles_def base_spec_def)

lemma required_rows_eq: "required_rows L = (required_triangles L + 23) div 24"
  using nat_ceiling_divide [of 24 "required_triangles L"]
  by (simp add: required_rows_def base_spec_def)

lemma required_rows_2: "required_rows 2 = 1"
  by (simp add: required_rows_eq required_triangles_eq)

lemma required_rows_400: "required_rows 400 = 45"
  by (simp add: required_rows_eq required_triangles_eq)

lemma required_rows_pos: "1 \<le> L \<Longrightarrow> 1 \<le> required_rows L"
  by (simp add: required_rows_eq required_triangles_eq)

lemma base_dims_pos:
  "0 < width (barcode_dim (base_spec\<lparr>grid_size := \<lparr>rows = r, cols = 24\<rparr>\<rparr>))"
  "0 < height (barcode_dim (base_spec\<lparr>grid_size := \<lparr>rows = r, cols = 24\<rparr>\<rparr>))"
proof -
  show "0 < width (barcode_dim (base_spec\<lparr>grid_size := \<lparr>rows = r, cols = 24\<rparr>\<rparr>))"
    by (simp add: width_barcode_dim base_spec_def mkPad_def mkDim_def)
  have "0 \<le> real r"
    by simp
  then show "0 < height (barcode_dim (base_spec\<lparr>grid_size := \<lparr>rows = r, cols = 24\<rparr>\<rparr>))"
    by (simp add: height_barcode_dim base_spec_def mkPad_def mkDim_def add_pos_nonneg)
qed


lemma calculate_dynamic_spec_pos:
  assumes "1 \<le> L"
  shows "calculate_dynamic_spec L mw mh =
     Inr (scale_spec
            (min (mw / (width (barcode_dim (base_spec\<lparr>grid_size := \<lparr>rows = required_rows L, cols = 24\<rparr>\<rparr>))
                        * sqrt (real (required_rows L) / 12)))
                 (mh / (height (barcode_dim (base_spec\<lparr>grid_size := \<lparr>rows = required_rows L, cols = 24\<rparr>\<rparr>))
                        * sqrt (real (required_rows L) / 12))))
            (scale_spec (sqrt (real (required_rows L) / 12))
               (base_spec\<lparr>grid_size := \<lparr>rows = required_rows L, cols = 24\<rparr>\<rparr>)))"
proof -
  have "0 < sqrt (real (required_rows L) / 12)"
    using required_rows_pos [OF assms] by simp
  then show ?thesis
    using base_dims_pos [of "required_rows L"]
    by (simp add: calculate_dynamic_spec_def barcode_dim_scale_spec py_div_def Let_def
        base_spec_def [THEN arg_cong, of "\<lambda>s. cols (grid_size s)"]
        base_spec_def [THEN arg_cong, of "\<lambda>s. rows (grid_size s)"])
qed


lemma calculate_dynamic_spec_size:
  assumes "1 \<le> L" and "calculate_dynamic_spec L mw mh = Inr spec"
  shows "bits spec = 3" and "cols (grid_size spec) = 24"
    and "rows (grid_size spec) = required_rows L"
  using assms(2) unfolding calculate_dynamic_spec_pos [OF assms(1)]
  by (auto simp add: scale_spec_def base_spec_def)

text \<open>
  C3. For a payload of at least one byte the calculator returns a specification whose grid
  has the 24 columns of the base template and \<open>ceil(requiredSymbols / 24)\<close> rows, where
  \<open>requiredSymbols = ceil(L * 8 / 3)\<close>; for two bytes that is one row of 24 columns at
  three bits per symbol.
\<close>

theorem calculator_grid_size:
  assumes "1 \<le> L"
  shows "required_triangles L = nat \<lceil>real (L * 8) / 3\<rceil>
    \<and> (\<exists>spec. calculate_dynamic_spec L mw mh = Inr spec
          \<and> cols (grid_size spec) = 24
          \<and> rows (grid_size spec) = nat \<lceil>real (required_triangles L) / 24\<rceil>)
    \<and> (\<exists>spec. calculate_dynamic_spec 2 mw mh = Inr spec
          \<and> bits spec = 3 \<and> cols (grid_size spec) = 24 \<and> rows (grid_size spec) = 1)"
proof (intro conjI)
  show "required_triangles L = nat \<lceil>real (L * 8) / 3\<rceil>"
    by (simp add: required_triangles_def base_spec_def)
next
  obtain spec where s: "calculate_dynamic_spec L mw mh = Inr spec"
    using calculate_dynamic_spec_pos [OF assms] by blast
  have "rows (grid_size spec) = nat \<lceil>real (required_triangles L) / 24\<rceil>"
    using calculate_dynamic_spec_size(3) [OF assms s]
    by (simp add: required_rows_def base_spec_def)
  with s calculate_dynamic_spec_size(2) [OF assms s]
  show "\<exists>spec. calculate_dynamic_spec L mw mh = Inr spec
          \<and> cols (grid_size spec) = 24
          \<and> rows (grid_size spec) = nat \<lceil>real (required_triangles L) / 24\<rceil>"
    by blast
next
  have two: "(1::nat) \<le> 2"
    by simp
  obtain spec where s: "calculate_dynamic_spec 2 mw mh = Inr spec"
    using calculate_dynamic_spec_pos [OF two] by blast
  show "\<exists>spec. calculate_dynamic_spec 2 mw mh = Inr spec
          \<and> bits spec = 3 \<and> cols (grid_size spec) = 24 \<and> rows (grid_size spec) = 1"
    using s calculate_dynamic_spec_size [OF two s] by (simp add: required_rows_2)
qed

theorem calculator_grid_size_witness:
  "(1::nat) \<le> 2
   \<and> required_triangles 2 = 6
   \<and> (\<exists>spec. calculate_dynamic_spec 2 500 500 = Inr spec
          \<and> cols (grid_size spec) = 24 \<and> rows (grid_size spec) = 1)"
  using calculator_grid_size [of 2 500 500]
  by (auto simp add: required_triangles_eq)

text \<open>
  C4. For a payload of at least one byte and a positive canvas, the total dimensions of the
  returned specification do not exceed the canvas: they are the dimensions before the
  second scaling multiplied by \<open>min (max_width / width) (max_height / height)\<close>.
\<close>

theorem calculator_fit:
  assumes "1 \<le> L" and "0 < mw" and "0 < mh"
  shows "\<exists>spec. calculate_dynamic_spec L mw mh = Inr spec
           \<and> width (barcode_dim spec) \<le> mw \<and> height (barcode_dim spec) \<le> mh"
proof -
  define base where "base = base_spec\<lparr>grid_size := \<lparr>rows = required_rows L, cols = 24\<rparr>\<rparr>"
  define k where "k = sqrt (real (required_rows L) / 12)"
  define W where "W = width (barcode_dim base) * k"
  define H where "H = height (barcode_dim base) * k"
  define f where "f = min (mw / W) (mh / H)"
  have k: "0 < k"
    using required_rows_pos [OF assms(1)] by (simp add: k_def)
  have W: "0 < W" and H: "0 < H"
    using k base_dims_pos [of "required_rows L"] by (simp_all add: W_def H_def base_def)
  have eq: "calculate_dynamic_spec L mw mh = Inr (scale_spec f (scale_spec k base))"
    unfolding calculate_dynamic_spec_pos [OF assms(1)] f_def W_def H_def k_def base_def ..
  have "W * f \<le> W * (mw / W)"
    using W by (intro mult_left_mono) (simp_all add: f_def)
  then have w: "W * f \<le> mw"
    using W by simp
  have "H * f \<le> H * (mh / H)"
    using H by (intro mult_left_mono) (simp_all add: f_def)
  then have h: "H * f \<le> mh"
    using H by simp
  from w h show ?thesis
    unfolding eq by (simp add: barcode_dim_scale_spec W_def H_def)
qed

theorem calculator_fit_witness:
  "(1::nat) \<le> 2 \<and> (0::real) < 500
   \<and> (\<exists>spec. calculate_dynamic_spec 2 500 500 = Inr spec
          \<and> width (barcode_dim spec) \<le> 500 \<and> height (barcode_dim spec) \<le> 500)"
  using calculator_fit [of 2 500 500] by simp








section \<open>Bit-colour packer: proofs\<close>

lemma symbol_indices_single:
  "symbol_indices b [v] = map (\<lambda>i. drop_bit (i * shift_of b) v AND mask_of b) [0..<8 div b]"
  by (simp add: symbol_indices_def symbol_index_def)

lemma symbol_indices_append:
  "symbol_indices b (xs @ ys) = symbol_indices b xs @ symbol_indices b ys"
  by (simp add: symbol_indices_def)

lemma upt_4: "[0..<4] = [0, 1, 2, 3]"
  by (simp add: upt_rec)

lemma upt_2: "[0..<2] = [0, 1]"
  by (simp add: upt_rec)

lemma symbol_indices_2:
  "symbol_indices 2 [v] = [v AND 3, drop_bit 2 v AND 3, drop_bit 4 v AND 3, drop_bit 6 v AND 3]"
  by (simp add: symbol_indices_single shift_of_def mask_of_def upt_4)

lemma symbol_indices_3:
  "symbol_indices 3 [v] = [v AND 7, drop_bit 3 v AND 7]"
  by (simp add: symbol_indices_single shift_of_def mask_of_def upt_2)

lemma and_3_nat: "(v::nat) AND 3 = v mod 4"
  using take_bit_eq_mask [of 2 v] by (simp add: take_bit_eq_mod mask_eq_exp_minus_1)

lemma and_7_nat: "(v::nat) AND 7 = v mod 8"
  using take_bit_eq_mask [of 3 v] by (simp add: take_bit_eq_mod mask_eq_exp_minus_1)

lemma no_bits_lost_2:
  assumes "(v::nat) < 256"
  shows "v = (v AND 3) + 4 * (drop_bit 2 v AND 3) + 16 * (drop_bit 4 v AND 3)
             + 64 * (drop_bit 6 v AND 3)"
proof -
  have a: "v = v mod 4 + 4 * (v div 4)"
    by simp
  have "v div 16 = v div 4 div 4" and "v div 64 = v div 16 div 4"
    by (simp_all add: div_mult2_eq)
  then have b: "v div 4 = v div 4 mod 4 + 4 * (v div 16)"
    and c: "v div 16 = v div 16 mod 4 + 4 * (v div 64)"
    by simp_all
  have d: "v div 64 mod 4 = v div 64"
    using assms by simp
  have "v = v mod 4 + 4 * (v div 4 mod 4) + 16 * (v div 16 mod 4) + 64 * (v div 64 mod 4)"
    using a b c d by linarith
  then show ?thesis
    unfolding and_3_nat drop_bit_eq_div using d by simp
qed

text \<open>
  With three bits per symbol only the low six bits of a byte reach the symbols: the two
  groups \<open>8 // 3\<close> allows do not cover the top two bits.
\<close>

lemma low_six_bits: "symbol_indices 3 (map (\<lambda>v. v AND 63) data) = symbol_indices 3 data"
proof (induction data)
  case Nil
  show ?case by (simp add: symbol_indices_def)
next
  case (Cons v data)
  have m: "(v AND 63) = v mod 64"
    using take_bit_eq_mask [of 6 v] by (simp add: take_bit_eq_mod mask_eq_exp_minus_1)
  have lo: "v mod 64 mod 8 = v mod 8"
    by (simp add: mod_mod_cancel)
  have "v mod 64 = 8 * (v div 8 mod 8) + v mod 8"
    using mod_mult2_eq [of v 8 8] by simp
  then have hi: "v mod 64 div 8 = v div 8 mod 8"
    by simp
  have "symbol_indices 3 [v AND 63] = symbol_indices 3 [v]"
    unfolding m by (simp add: symbol_indices_3 and_7_nat drop_bit_eq_div lo hi)
  then show ?case
    using symbol_indices_append [of 3 "[v AND 63]" "map (\<lambda>v. v AND 63) data"]
      symbol_indices_append [of 3 "[v]" data] Cons.IH
    by simp
qed

lemma length_symbol_indices: "length (symbol_indices b data) = (8 div b) * length data"
  by (induction data) (simp_all add: symbol_indices_def)

lemma length_restore_bytes:
  "length (restore_bytes b (symbol_indices b data)) = (8 div b) * length data"
  by (simp add: restore_bytes_def length_symbol_indices)

text \<open>
  C2, amended. Every index the packer emits for a byte is a field of that byte, \<open>bits\<close>
  wide, taken with the mask \<open>2 ^ bits - 1\<close>, the least significant group first: index \<open>i\<close>
  is \<open>(b >> i * bits) & mask\<close>. The colours are the palette entries of these indices. With
  two bits per symbol there are four indices and the byte is their sum weighted by the
  powers of four, so no bit is lost.
\<close>

theorem packer_fields:
  assumes "v < 256" and "b = 2 \<or> b = 3"
  shows "(\<forall>i < length (symbol_indices b [v]).
            symbol_indices b [v] ! i = drop_bit (i * b) v AND (2 ^ b - 1))
    \<and> data_to_colors b [v] = Inr (map (\<lambda>k. color_map_of b ! k) (symbol_indices b [v]))
    \<and> length (symbol_indices 2 [v]) = 4
    \<and> v = symbol_indices 2 [v] ! 0 + 4 * symbol_indices 2 [v] ! 1
           + 16 * symbol_indices 2 [v] ! 2 + 64 * symbol_indices 2 [v] ! 3"
proof (intro conjI)
  show "\<forall>i < length (symbol_indices b [v]).
            symbol_indices b [v] ! i = drop_bit (i * b) v AND (2 ^ b - 1)"
    using assms(2) by (auto simp add: symbol_indices_single shift_of_def mask_of_def)
  show "data_to_colors b [v] = Inr (map (\<lambda>k. color_map_of b ! k) (symbol_indices b [v]))"
    using assms(2) by (auto simp add: data_to_colors_def)
  show "length (symbol_indices 2 [v]) = 4"
    by (simp add: symbol_indices_2)
  show "v = symbol_indices 2 [v] ! 0 + 4 * symbol_indices 2 [v] ! 1
           + 16 * symbol_indices 2 [v] ! 2 + 64 * symbol_indices 2 [v] ! 3"
    using no_bits_lost_2 [OF assms(1)] by (simp add: symbol_indices_2)
qed

theorem packer_fields_witness:
  "(72::nat) < 256 \<and> symbol_indices 2 [72] = [0, 2, 0, 1]
   \<and> data_to_colors 2 [72] = Inr [''#000000'', ''#12FF0E'', ''#000000'', ''#FFFF45'']
   \<and> (72::nat) = 0 + 4 * 2 + 16 * 0 + 64 * 1"
proof -
  have s: "symbol_indices 2 [72] = [0, 2, 0, 1]"
    by code_simp
  have "data_to_colors 2 [72] = Inr (map (\<lambda>k. color_map_of 2 ! k) (symbol_indices 2 [72]))"
    using packer_fields [of 72 2] by simp
  then show ?thesis
    by (simp add: s color_map_of_def FOUR_COLOR_MAP_def)
qed

text \<open>
  C2, as stated, fails: with three bits per symbol the byte 0x48 gives two indices, not
  \<open>ceil(8 / 3) = 3\<close>, and the same two as the byte 0x08; with two bits per symbol the byte
  0x01 gives the index 1 first, which is its least significant group (the most
  significant one is 0).
\<close>

theorem packer_msb_first_counterexample:
  "length (symbol_indices 3 [72]) = 2 \<and> nat \<lceil>8 / (3::real)\<rceil> = 3
   \<and> symbol_indices 3 [72] = symbol_indices 3 [8]
   \<and> symbol_indices 2 [1] = [1, 0, 0, 0] \<and> drop_bit 6 (1::nat) AND 3 = 0"
proof -
  have "symbol_indices 3 [72] = [0, 1]" "symbol_indices 3 [8] = [0, 1]"
    "symbol_indices 2 [1] = [1, 0, 0, 0]" "drop_bit 6 (1::nat) AND 3 = 0"
    by code_simp+
  moreover have "nat \<lceil>8 / (3::real)\<rceil> = 3"
    by simp
  ultimately show ?thesis
    by simp
qed

text \<open>
  C1. The round trip fails on the payload bytes 0x48 0x49. With three bits per symbol
  they are packed into the indices 0 1 1 1, the same as for 0x08 0x09. From these indices
  \<open>restore_data\<close> builds the four bytes 0 8 8 8 for the Reed-Solomon decoder, and
  \<open>decode_colors\<close> the single byte 0x15. With two bits per symbol \<open>restore_data\<close> builds
  eight bytes and \<open>decode_colors\<close> the bytes 0x21 0x61.
\<close>

theorem packer_roundtrip_diverges:
  "symbol_indices 3 [72, 73] = [0, 1, 1, 1]
   \<and> symbol_indices 3 [72, 73] = symbol_indices 3 [8, 9]
   \<and> restore_bytes 3 (symbol_indices 3 [72, 73]) = [0, 8, 8, 8]
   \<and> decode_colors [map (\<lambda>k. COLOR_LIST ! k) (symbol_indices 3 [72, 73])] = Inr [21]
   \<and> restore_bytes 2 (symbol_indices 2 [72, 73]) = [0, 8, 0, 4, 4, 8, 0, 4]
   \<and> decode_colors [map (\<lambda>k. COLOR_LIST ! k) (symbol_indices 2 [72, 73])] = Inr [33, 97]"
proof (intro conjI)
  show "symbol_indices 3 [72, 73] = [0, 1, 1, 1]"
    by code_simp
  show "symbol_indices 3 [72, 73] = symbol_indices 3 [8, 9]"
    by code_simp
  show "restore_bytes 3 (symbol_indices 3 [72, 73]) = [0, 8, 8, 8]"
    by code_simp
  show "decode_colors [map (\<lambda>k. COLOR_LIST ! k) (symbol_indices 3 [72, 73])] = Inr [21]"
    by code_simp
  show "restore_bytes 2 (symbol_indices 2 [72, 73]) = [0, 8, 0, 4, 4, 8, 0, 4]"
    by code_simp
  show "decode_colors [map (\<lambda>k. COLOR_LIST ! k) (symbol_indices 2 [72, 73])] = Inr [33, 97]"
    by code_simp
qed

section \<open>Synchronisation symbols: proofs\<close>

lemma length_color_map_of: "b = 2 \<or> b = 3 \<Longrightarrow> length (color_map_of b) = 2 ^ b"
  by (auto simp add: color_map_of_def FOUR_COLOR_MAP_def EIGHT_COLOR_MAP_def)

lemma colored_data_eq:
  "b \<noteq> 0 \<Longrightarrow> colored_data b enc =
     Inr (colors_prefix b @ map (\<lambda>k. color_map_of b ! k) (symbol_indices b enc))"
  by (simp add: colored_data_def data_to_colors_def)

lemma colors_prefix_nth:
  assumes "b = 2 \<or> b = 3" and "k < 2 * 2 ^ b"
  shows "(colors_prefix b @ cs) ! k = color_map_of b ! (k mod 2 ^ b)"
proof -
  note len = length_color_map_of [OF assms(1)]
  show ?thesis
  proof (cases "k < 2 ^ b")
    case True
    then show ?thesis
      by (simp add: colors_prefix_def len nth_append)
  next
    case False
    then have m: "k mod 2 ^ b = k - 2 ^ b"
      using assms(2) by (simp add: mod_if)
    have lt: "k - 2 ^ b < 2 ^ b"
      using False assms(2) by simp
    show ?thesis
      using False assms(2) lt by (simp add: colors_prefix_def len nth_append m)
  qed
qed

section \<open>Triangle drawer: proofs\<close>

lemma product_cell_indices:
  "map (\<lambda>(i, j). i * c + j) (List.product [0..<r] [0..<c]) = [0..<r * c]"
proof (induction r)
  case 0
  show ?case by simp
next
  case (Suc r)
  have split: "List.product [0..<Suc r] [0..<c]
      = List.product [0..<r] [0..<c] @ map (Pair r) [0..<c]"
    by (simp add: product_concat_map)
  have "map (\<lambda>(i, j). i * c + j) (map (Pair r) [0..<c]) = map (\<lambda>j. j + r * c) [0..<c]"
    by (simp add: add.commute)
  also have "\<dots> = [r * c..<c + r * c]"
    by (rule map_add_upt)
  finally have last: "map (\<lambda>(i, j). i * c + j) (map (Pair r) [0..<c]) = [r * c..<r * c + c]"
    by (simp only: add.commute)
  have "[0..<r * c + c] = [0..<r * c] @ [r * c..<r * c + c]"
    by (rule upt_add_eq_append) simp
  then have "[0..<Suc r * c] = [0..<r * c] @ [r * c..<r * c + c]"
    by (simp only: mult_Suc add.commute)
  then show ?case
    unfolding split map_append Suc.IH last by simp
qed

lemma draw_cells_IndexError:
  assumes "\<exists>(i, j)\<in>set cells. length data \<le> i * cols (grid_size spec) + j"
  shows "draw_cells spec corner data cells dwg = Inl IndexError"
  using assms
proof (induction cells arbitrary: dwg)
  case Nil
  then show ?case by simp
next
  case (Cons cell cells)
  obtain i j where cell: "cell = (i, j)"
    by (cases cell)
  show ?case
  proof (cases "i * cols (grid_size spec) + j < length data")
    case True
    with Cons.prems cell
    have "\<exists>(i, j)\<in>set cells. length data \<le> i * cols (grid_size spec) + j"
      by auto
    from Cons.IH [OF this] True show ?thesis
      by (simp add: cell py_index_def Let_def)
  next
    case False
    then show ?thesis
      by (simp add: cell py_index_def)
  qed
qed

lemma draw_cells_Inr:
  assumes "\<forall>(i, j)\<in>set cells. i * cols (grid_size spec) + j < length data"
  shows "\<exists>dwg'. draw_cells spec corner data cells dwg = Inr dwg'"
  using assms
proof (induction cells arbitrary: dwg)
  case Nil
  then show ?case by simp
next
  case (Cons cell cells)
  obtain i j where cell: "cell = (i, j)"
    by (cases cell)
  from Cons.prems cell have "i * cols (grid_size spec) + j < length data"
    and rest: "\<forall>(i, j)\<in>set cells. i * cols (grid_size spec) + j < length data"
    by auto
  then show ?case
    using Cons.IH [OF rest] by (simp add: cell py_index_def Let_def)
qed

lemma draw_triangles_IndexError:
  assumes "length data < rows (grid_size spec) * cols (grid_size spec)"
  shows "draw_triangles dwg spec corner data = Inl IndexError"
proof -
  let ?c = "cols (grid_size spec)" and ?r = "rows (grid_size spec)"
  have "length data \<in> set (map (\<lambda>(i, j). i * ?c + j) (List.product [0..<?r] [0..<?c]))"
    unfolding product_cell_indices using assms by simp
  then obtain cell where cell: "cell \<in> set (List.product [0..<?r] [0..<?c])"
    and idx: "length data = (case cell of (i, j) \<Rightarrow> i * ?c + j)"
    by (auto simp del: set_product)
  from idx have "case cell of (i, j) \<Rightarrow> length data \<le> i * ?c + j"
    by (cases cell) simp
  with cell have "\<exists>(i, j)\<in>set (List.product [0..<?r] [0..<?c]). length data \<le> i * ?c + j"
    by (rule bexI [rotated])
  then show ?thesis
    unfolding draw_triangles_def by (rule draw_cells_IndexError)
qed

lemma draw_triangles_Inr:
  assumes "rows (grid_size spec) * cols (grid_size spec) \<le> length data"
  shows "\<exists>dwg'. draw_triangles dwg spec corner data = Inr dwg'"
proof -
  let ?c = "cols (grid_size spec)" and ?r = "rows (grid_size spec)"
  have "\<forall>k\<in>set (map (\<lambda>(i, j). i * ?c + j) (List.product [0..<?r] [0..<?c])). k < length data"
    unfolding product_cell_indices using assms by simp
  then have "\<forall>(i, j)\<in>set (List.product [0..<?r] [0..<?c]). i * ?c + j < length data"
    by (auto simp del: set_product)
  then show ?thesis
    unfolding draw_triangles_def by (rule draw_cells_Inr)
qed

section \<open>Encode orchestrator: proofs\<close>

lemma length_colored_data:
  assumes "b = 2 \<or> b = 3"
  shows "\<exists>cd. colored_data b enc = Inr cd \<and> length cd = 2 * 2 ^ b + (8 div b) * length enc"
proof -
  have "b \<noteq> 0"
    using assms by auto
  from colored_data_eq [OF this] show ?thesis
    using length_color_map_of [OF assms]
    by (simp add: colors_prefix_def length_symbol_indices)
qed

lemma barcode_IndexError:
  assumes lvl: "ecc_symbols_of level (length data) = Inr ecc"
    and rs: "apply_reed_solomon lib data ecc = Inr enc"
    and cd: "colored_data (bits spec) enc = Inr cd"
    and short: "length cd < rows (grid_size spec) * cols (grid_size spec)"
  shows "barcode lib spec w h data level = Inl IndexError"
  using draw_triangles_IndexError [OF short]
  by (simp add: barcode_def lvl rs cd Let_def)

lemma generate_hccb_short_color_list:
  assumes bytes: "list_all (\<lambda>v. v < 256) data" and nonempty: "data \<noteq> []"
    and lvl: "ecc_symbols_of level (length data) = Inr ecc"
    and codec: "RSCodec lib ecc = Inr rs"
    and enc: "rs_encode lib rs data = Inr enc"
    and short: "16 + 2 * length enc < required_rows (length data) * 24"
  shows "(\<exists>spec cd. calculate_dynamic_spec (length data) mw mh = Inr spec
            \<and> rows (grid_size spec) = required_rows (length data)
            \<and> cols (grid_size spec) = 24
            \<and> colored_data (bits spec) enc = Inr cd
            \<and> length cd = 16 + 2 * length enc
            \<and> length cd < rows (grid_size spec) * cols (grid_size spec))
    \<and> generate_hccb lib data mw mh level = Inl IndexError"
proof -
  have L: "1 \<le> length data"
    using nonempty by (cases data) simp_all
  obtain spec where spec: "calculate_dynamic_spec (length data) mw mh = Inr spec"
    using calculate_dynamic_spec_pos [OF L] by blast
  note size = calculate_dynamic_spec_size [OF L spec]
  have three: "bits spec = 2 \<or> bits spec = 3"
    using size(1) by simp
  obtain cd where cd: "colored_data (bits spec) enc = Inr cd"
    and len: "length cd = 2 * 2 ^ bits spec + (8 div bits spec) * length enc"
    using length_colored_data [OF three] by blast
  have len': "length cd = 16 + 2 * length enc"
    using len size(1) by simp
  have lt: "length cd < rows (grid_size spec) * cols (grid_size spec)"
    using short len' size by simp
  have rs: "apply_reed_solomon lib data ecc = Inr enc"
    by (simp add: apply_reed_solomon_def codec bytes enc)
  have "generate_hccb lib data mw mh level = Inl IndexError"
    using barcode_IndexError [OF lvl rs cd lt] by (simp add: generate_hccb_def spec)
  with spec size cd len' lt show ?thesis
    by blast
qed

lemma barcode_Inr:
  assumes lvl: "ecc_symbols_of level (length data) = Inr ecc"
    and rs: "apply_reed_solomon lib data ecc = Inr enc"
    and cd: "colored_data (bits spec) enc = Inr cd"
    and enough: "rows (grid_size spec) * cols (grid_size spec) \<le> length cd"
  shows "\<exists>out. barcode lib spec w h data level = Inr out"
proof -
  obtain dwg' where "draw_triangles
      (draw_frame []
        \<lparr>point = mkPoint 0 0, dim = barcode_dim spec\<rparr>
        \<lparr>point = mkPoint (left (white_frame_pad spec)) (top_pad (white_frame_pad spec)),
         dim = mkDim (width (barcode_dim spec) - left (white_frame_pad spec)
                      - right (white_frame_pad spec))
                     (height (barcode_dim spec) - top_pad (white_frame_pad spec)
                      - bottom (white_frame_pad spec))\<rparr>)
      spec
      (mkPoint (x_coord (mkPoint (left (white_frame_pad spec)) (top_pad (white_frame_pad spec)))
                + left (black_background_pad spec))
               (y_coord (mkPoint (left (white_frame_pad spec)) (top_pad (white_frame_pad spec)))
                + top_pad (black_background_pad spec)))
      cd = Inr dwg'"
    using draw_triangles_Inr [OF enough] by blast
  then show ?thesis
    by (simp add: barcode_def lvl rs cd Let_def)
qed

lemma frame_400: "length (frame_blocks 100 (replicate 400 0)) = 700"
  by code_simp

lemma frame_150: "frame_blocks 37 (replicate 150 0) = replicate 187 0"
  by code_simp


text \<open>
  C6, as stated, fails on its example. A payload of 400 bytes at level M has 100 parity
  bytes for each codeword, so it is framed in three blocks, 700 bytes in all; the colour
  list then has 16 + 1400 colours for the 45 * 24 = 1080 cells, and encoding returns a
  drawing.
\<close>

theorem three_codewords_counterexample:
  "ecc_symbols_of ''M'' (length (replicate 400 (0::nat))) = Inr 100
   \<and> length (frame_blocks 100 (replicate 400 0)) = 700
   \<and> required_rows 400 * 24 = 1080
   \<and> (\<exists>out. generate_hccb block_framer (replicate 400 0) 500 500 ''M'' = Inr out)"
proof -
  let ?data = "replicate 400 (0::nat)"
  have L: "1 \<le> length ?data"
    by simp
  have lvl: "ecc_symbols_of ''M'' (length ?data) = Inr 100"
    by (simp add: ecc_symbols_of_def)
  have rs: "apply_reed_solomon block_framer ?data 100 = Inr (frame_blocks 100 ?data)"
    by (simp add: apply_reed_solomon_def block_framer_def list_all_iff)
  obtain spec where spec: "calculate_dynamic_spec (length ?data) 500 500 = Inr spec"
    using calculate_dynamic_spec_pos [OF L] by blast
  note size = calculate_dynamic_spec_size [OF L spec]
  have three: "bits spec = 2 \<or> bits spec = 3"
    using size(1) by simp
  obtain cd where cd: "colored_data (bits spec) (frame_blocks 100 ?data) = Inr cd"
    and len: "length cd = 2 * 2 ^ bits spec + (8 div bits spec) * length (frame_blocks 100 ?data)"
    using length_colored_data [OF three] by blast
  have enough: "rows (grid_size spec) * cols (grid_size spec) \<le> length cd"
    using size by (simp add: len frame_400 required_rows_400)
  obtain out where "barcode block_framer spec 500 500 ?data ''M'' = Inr out"
    using barcode_Inr [OF lvl rs cd enough] by blast
  then have "generate_hccb block_framer ?data 500 500 ''M'' = Inr out"
    using spec by (simp add: generate_hccb_def)
  then show ?thesis
    using lvl by (auto simp add: frame_400 required_rows_400)
qed

text \<open>
  C6, amended. The grid is computed from the payload length alone, whatever the level:
  for 150 bytes it has 17 rows of 24 columns. At level M such a payload has 37 parity
  bytes and is framed in one codeword of 150 + 37 bytes. The colour list has the 16
  synchronisation colours and two colours for each framed byte, 390 in all, fewer than
  the 408 cells: the drawer reads past the end of the list and encoding fails with
  \<open>IndexError\<close>.
\<close>

theorem one_codeword_index_error:
  assumes len: "length data = 150" and bytes: "list_all (\<lambda>v. v < 256) data"
    and codec: "RSCodec lib 37 = Inr rs"
    and enc: "rs_encode lib rs data = Inr enc"
    and framed: "length enc = length data + 37"
  shows "ecc_symbols_of ''M'' (length data) = Inr 37
    \<and> (\<exists>spec cd. calculate_dynamic_spec (length data) mw mh = Inr spec
            \<and> rows (grid_size spec) = 17
            \<and> cols (grid_size spec) = 24
            \<and> colored_data (bits spec) enc = Inr cd
            \<and> length cd = 390
            \<and> length cd < rows (grid_size spec) * cols (grid_size spec))
    \<and> generate_hccb lib data mw mh ''M'' = Inl IndexError"
proof -
  have nonempty: "data \<noteq> []"
    using len by auto
  have lvl: "ecc_symbols_of ''M'' (length data) = Inr 37"
    by (simp add: len ecc_symbols_of_def)
  have rows: "required_rows 150 = 17"
    by (simp add: required_rows_eq required_triangles_eq)
  have short: "16 + 2 * length enc < required_rows (length data) * 24"
    unfolding framed len rows by simp
  from generate_hccb_short_color_list [OF bytes nonempty lvl codec enc short, of mw mh] lvl
  show ?thesis
    unfolding framed len rows by simp
qed

theorem one_codeword_index_error_witness:
  "length (replicate 150 (0::nat)) = 150
   \<and> list_all (\<lambda>v. v < 256) (replicate 150 (0::nat))
   \<and> RSCodec block_framer 37 = Inr 37
   \<and> rs_encode block_framer 37 (replicate 150 0) = Inr (replicate 187 0)
   \<and> generate_hccb block_framer (replicate 150 0) 500 500 ''M'' = Inl IndexError"
proof -
  let ?data = "replicate 150 (0::nat)"
  have len: "length ?data = 150"
    by simp
  have bytes: "list_all (\<lambda>v. v < 256) ?data"
    by (simp add: list_all_iff)
  have codec: "RSCodec block_framer 37 = Inr 37"
    by (simp add: block_framer_def)
  have enc: "rs_encode block_framer 37 ?data = Inr (replicate 187 0)"
    by (simp add: block_framer_def frame_150)
  have framed: "length (replicate 187 (0::nat)) = length ?data + 37"
    by simp
  from one_codeword_index_error [OF len bytes codec enc framed, of 500 500]
  have "generate_hccb block_framer ?data 500 500 ''M'' = Inl IndexError"
    by blast
  with len bytes codec enc show ?thesis
    by blast
qed

section \<open>Placement of the synchronisation symbols: proofs\<close>

lemma draw_cells_result:
  assumes "\<forall>(i, j)\<in>set cells. i * cols (grid_size spec) + j < length data"
  shows "draw_cells spec corner data cells dwg =
     Inr (dwg @ map (\<lambda>(i, j). triangle_for spec corner i j
                        (data ! (i * cols (grid_size spec) + j))) cells)"
  using assms
proof (induction cells arbitrary: dwg)
  case Nil
  then show ?case by simp
next
  case (Cons cell cells)
  obtain i j where cell: "cell = (i, j)"
    by (cases cell)
  from Cons.prems cell have here: "i * cols (grid_size spec) + j < length data"
    and rest: "\<forall>(i, j)\<in>set cells. i * cols (grid_size spec) + j < length data"
    by auto
  show ?case
    using here Cons.IH [OF rest]
    by (simp add: cell py_index_def Let_def draw_triangle_def triangle_for_def get_row_spec_def)
qed

lemma draw_triangles_result:
  assumes "rows (grid_size spec) * cols (grid_size spec) \<le> length data"
  shows "draw_triangles dwg spec corner data =
     Inr (dwg @ map (\<lambda>(i, j). triangle_for spec corner i j
                        (data ! (i * cols (grid_size spec) + j)))
                  (List.product [0..<rows (grid_size spec)] [0..<cols (grid_size spec)]))"
proof -
  let ?c = "cols (grid_size spec)" and ?r = "rows (grid_size spec)"
  have "\<forall>k\<in>set (map (\<lambda>(i, j). i * ?c + j) (List.product [0..<?r] [0..<?c])). k < length data"
    unfolding product_cell_indices using assms by simp
  then have "\<forall>(i, j)\<in>set (List.product [0..<?r] [0..<?c]). i * ?c + j < length data"
    by (auto simp del: set_product)
  then show ?thesis
    unfolding draw_triangles_def by (rule draw_cells_result)
qed

lemma triangle_of_position:
  assumes "k < r * c"
  shows "map (\<lambda>(i, j). f i j (data ! (i * c + j))) (List.product [0..<r] [0..<c]) ! k
     = f (k div c) (k mod c) (data ! k)"
proof -
  have c: "0 < c"
    using assms by (cases c) simp_all
  have "k div c < r"
    using assms by (simp add: less_mult_imp_div_less)
  moreover have "k mod c < c"
    using c by simp
  moreover have "List.product [0..<r] [0..<c] ! k = ([0..<r] ! (k div c), [0..<c] ! (k mod c))"
    using product_nth [of k "[0..<r]" "[0..<c]"] assms by simp
  ultimately have "List.product [0..<r] [0..<c] ! k = (k div c, k mod c)"
    by simp
  then show ?thesis
    using assms by simp
qed

lemma draw_rects_append:
  "foldl (\<lambda>d row. draw_rect d fill (f row)) dwg rws = dwg @ map (\<lambda>row. Rectangle fill (f row)) rws"
  by (induction rws arbitrary: dwg) (simp_all add: draw_rect_def)

lemma draw_strips_append:
  "\<exists>strips. draw_strips dwg rspec corner sz = dwg @ strips \<and> length strips = rows sz + 1"
  unfolding draw_strips_def Let_def draw_rects_append by simp

lemma barcode_elements:
  assumes lvl: "ecc_symbols_of level (length data) = Inr ecc"
    and rs: "apply_reed_solomon lib data ecc = Inr enc"
    and cd: "colored_data (bits spec) enc = Inr cd"
    and enough: "rows (grid_size spec) * cols (grid_size spec) \<le> length cd"
  shows "\<exists>frame strips. length frame = 2 \<and> length strips = rows (grid_size spec) + 1
     \<and> barcode lib spec w h data level =
         Inr ((w, h),
              frame
              @ map (\<lambda>(i, j). triangle_for spec (inner_padded_corner spec) i j
                                 (cd ! (i * cols (grid_size spec) + j)))
                    (List.product [0..<rows (grid_size spec)] [0..<cols (grid_size spec)])
              @ strips)"
proof -
  define frame where "frame = draw_frame []
      \<lparr>point = mkPoint 0 0, dim = barcode_dim spec\<rparr>
      \<lparr>point = mkPoint (left (white_frame_pad spec)) (top_pad (white_frame_pad spec)),
       dim = mkDim (width (barcode_dim spec) - left (white_frame_pad spec)
                    - right (white_frame_pad spec))
                   (height (barcode_dim spec) - top_pad (white_frame_pad spec)
                    - bottom (white_frame_pad spec))\<rparr>"
  define tris where "tris = map (\<lambda>(i, j). triangle_for spec (inner_padded_corner spec) i j
                                 (cd ! (i * cols (grid_size spec) + j)))
                    (List.product [0..<rows (grid_size spec)] [0..<cols (grid_size spec)])"
  have corner: "mkPoint (x_coord (mkPoint (left (white_frame_pad spec)) (top_pad (white_frame_pad spec)))
                + left (black_background_pad spec))
               (y_coord (mkPoint (left (white_frame_pad spec)) (top_pad (white_frame_pad spec)))
                + top_pad (black_background_pad spec)) = inner_padded_corner spec"
    by (simp add: inner_padded_corner_def mkPoint_def)
  have len: "length frame = 2"
    by (simp add: frame_def draw_frame_def draw_rect_def)
  have tri: "draw_triangles frame spec (inner_padded_corner spec) cd = Inr (frame @ tris)"
    unfolding tris_def by (rule draw_triangles_result [OF enough])
  obtain strips where strips: "draw_strips (frame @ tris) (get_row_spec spec)
      (inner_padded_corner spec) (grid_size spec) = (frame @ tris) @ strips"
    and slen: "length strips = rows (grid_size spec) + 1"
    using draw_strips_append by blast
  have "barcode lib spec w h data level = Inr ((w, h), frame @ tris @ strips)"
    using tri strips
    by (simp add: barcode_def lvl rs cd Let_def corner frame_def [symmetric])
  with len slen show ?thesis
    unfolding tris_def by blast
qed


lemma barcode_placement:
  assumes lvl: "ecc_symbols_of level (length data) = Inr ecc"
    and rs: "apply_reed_solomon lib data ecc = Inr enc"
    and b: "bits spec = 2 \<or> bits spec = 3"
    and wide: "2 * 2 ^ bits spec \<le> cols (grid_size spec)"
    and rows: "1 \<le> rows (grid_size spec)"
    and enough: "rows (grid_size spec) * cols (grid_size spec)
                   \<le> 2 * 2 ^ bits spec + (8 div bits spec) * length enc"
  shows "\<exists>els. barcode lib spec w h data level = Inr ((w, h), els)
        \<and> length els = 2 + rows (grid_size spec) * cols (grid_size spec)
                         + (rows (grid_size spec) + 1)
        \<and> (\<forall>k < 2 * 2 ^ bits spec.
              els ! (2 + k) = triangle_for spec (inner_padded_corner spec) 0 k
                                (color_map_of (bits spec) ! (k mod 2 ^ bits spec)))
        \<and> (\<forall>k. 2 * 2 ^ bits spec \<le> k \<and> k < rows (grid_size spec) * cols (grid_size spec) \<longrightarrow>
              els ! (2 + k) = triangle_for spec (inner_padded_corner spec)
                                (k div cols (grid_size spec)) (k mod cols (grid_size spec))
                                (color_map_of (bits spec)
                                  ! (symbol_indices (bits spec) enc ! (k - 2 * 2 ^ bits spec))))"
proof -
  let ?b = "bits spec" and ?r = "rows (grid_size spec)" and ?c = "cols (grid_size spec)"
  let ?corner = "inner_padded_corner spec"
  define dc where "dc = map (\<lambda>k. color_map_of ?b ! k) (symbol_indices ?b enc)"
  define cd where "cd = colors_prefix ?b @ dc"
  define tris where "tris = map (\<lambda>(i, j). triangle_for spec ?corner i j (cd ! (i * ?c + j)))
                              (List.product [0..<?r] [0..<?c])"
  have nz: "?b \<noteq> 0"
    using b by auto
  have cdata: "colored_data ?b enc = Inr cd"
    unfolding cd_def dc_def by (rule colored_data_eq [OF nz])
  have plen: "length (colors_prefix ?b) = 2 * 2 ^ ?b"
    using length_color_map_of [OF b] by (simp add: colors_prefix_def)
  have dlen: "length dc = (8 div ?b) * length enc"
    by (simp add: dc_def length_symbol_indices)
  have fits: "?r * ?c \<le> length cd"
    using enough by (simp add: cd_def plen dlen)
  obtain frame strips where flen: "length frame = 2" and slen: "length strips = ?r + 1"
    and res: "barcode lib spec w h data level = Inr ((w, h), frame @ tris @ strips)"
    using barcode_elements [OF lvl rs cdata fits, of w h] unfolding tris_def by blast
  have tlen: "length tris = ?r * ?c"
    by (simp add: tris_def)
  have at: "(frame @ tris @ strips) ! (2 + k) = triangle_for spec ?corner (k div ?c) (k mod ?c) (cd ! k)"
    if "k < ?r * ?c" for k
  proof -
    have "(frame @ tris @ strips) ! (2 + k) = tris ! k"
      using that flen tlen by (simp add: nth_append)
    also have "\<dots> = triangle_for spec ?corner (k div ?c) (k mod ?c) (cd ! k)"
      unfolding tris_def by (rule triangle_of_position [OF that])
    finally show ?thesis .
  qed
  have sync: "(frame @ tris @ strips) ! (2 + k)
      = triangle_for spec ?corner 0 k (color_map_of ?b ! (k mod 2 ^ ?b))"
    if k: "k < 2 * 2 ^ ?b" for k
  proof -
    have kc: "k < ?c"
      using k wide by simp
    then have "k < ?r * ?c"
      using rows by (metis (no_types) less_le_trans mult.commute mult_le_mono2 nat_mult_1_right)
    from at [OF this] show ?thesis
      using kc by (simp add: cd_def colors_prefix_nth [OF b k])
  qed
  have payload: "(frame @ tris @ strips) ! (2 + k)
      = triangle_for spec ?corner (k div ?c) (k mod ?c)
          (color_map_of ?b ! (symbol_indices ?b enc ! (k - 2 * 2 ^ ?b)))"
    if k: "2 * 2 ^ ?b \<le> k" "k < ?r * ?c" for k
  proof -
    have "k - 2 * 2 ^ ?b < length (symbol_indices ?b enc)"
      using k enough by (simp add: length_symbol_indices)
    then have "cd ! k = color_map_of ?b ! (symbol_indices ?b enc ! (k - 2 * 2 ^ ?b))"
      using k(1) by (simp add: cd_def dc_def nth_append plen)
    with at [OF k(2)] show ?thesis
      by simp
  qed
  have "length (frame @ tris @ strips) = 2 + ?r * ?c + (?r + 1)"
    by (simp add: flen tlen slen)
  with res sync payload show ?thesis
    by blast
qed


lemma frame_73: "frame_blocks 7 [73] = [73, 0, 0, 0, 0, 0, 0, 0]"
  by code_simp

lemma symbol_indices_73: "symbol_indices 3 [73, 0, 0, 0, 0, 0, 0, 0] ! 0 = 1"
  by code_simp

lemma apply_reed_solomon_73:
  "apply_reed_solomon block_framer [73] 7 = Inr [73, 0, 0, 0, 0, 0, 0, 0]"
  by (simp add: apply_reed_solomon_def block_framer_def frame_73)

lemma ecc_symbols_L_1: "ecc_symbols_of ''L'' (length [73::nat]) = Inr 7"
  by (simp add: ecc_symbols_of_def)

text \<open>
  C9, as stated, fails: the synchronisation colours do not have a row of their own. For
  the one-byte payload 0x49 at level L the grid has one row of 24 cells. The triangle of
  cell \<open>(0, 15)\<close> has the last synchronisation colour and the triangle of cell \<open>(0, 16)\<close>, in
  the same row, has the colour of the first symbol of the payload (index 1). The
  drawing has the two frame rectangles, 24 triangles and two strips: no further row.
\<close>

theorem sync_row_holds_payload_counterexample:
  "symbol_indices 3 (frame_blocks 7 [73]) ! 0 = 1
   \<and> (\<exists>spec els. calculate_dynamic_spec (length [73::nat]) 500 500 = Inr spec
        \<and> rows (grid_size spec) = 1 \<and> cols (grid_size spec) = 24
        \<and> generate_hccb block_framer [73] 500 500 ''L'' = Inr ((500, 500), els)
        \<and> length els = 2 + 24 + 2
        \<and> els ! (2 + 15) = triangle_for spec (inner_padded_corner spec) 0 15 ''#1833DE''
        \<and> els ! (2 + 16) = triangle_for spec (inner_padded_corner spec) 0 16 ''#FAFD28'')"
proof -
  have L: "1 \<le> length [73::nat]"
    by simp
  obtain spec where spec: "calculate_dynamic_spec (length [73::nat]) 500 500 = Inr spec"
    using calculate_dynamic_spec_pos [OF L] by blast
  note size = calculate_dynamic_spec_size [OF L spec]
  have r1: "required_rows (length [73::nat]) = 1"
    by (simp add: required_rows_eq required_triangles_eq)
  have b3: "bits spec = 3" and c24: "cols (grid_size spec) = 24" and rows1: "rows (grid_size spec) = 1"
    using size r1 by simp_all
  have b: "bits spec = 2 \<or> bits spec = 3"
    using b3 by simp
  have wide: "2 * 2 ^ bits spec \<le> cols (grid_size spec)"
    by (simp add: b3 c24)
  have rows: "1 \<le> rows (grid_size spec)"
    by (simp add: rows1)
  have enough: "rows (grid_size spec) * cols (grid_size spec)
      \<le> 2 * 2 ^ bits spec + (8 div bits spec) * length [73, 0, 0, 0, 0, 0, 0, 0::nat]"
    by (simp add: b3 c24 rows1)
  from barcode_placement [OF ecc_symbols_L_1 apply_reed_solomon_73 b wide rows enough, of 500 500]
  obtain els where res: "barcode block_framer spec 500 500 [73] ''L'' = Inr ((500, 500), els)"
    and len: "length els = 2 + rows (grid_size spec) * cols (grid_size spec)
                             + (rows (grid_size spec) + 1)"
    and sync: "\<forall>k < 2 * 2 ^ bits spec.
        els ! (2 + k) = triangle_for spec (inner_padded_corner spec) 0 k
                          (color_map_of (bits spec) ! (k mod 2 ^ bits spec))"
    and payload: "\<forall>k. 2 * 2 ^ bits spec \<le> k \<and> k < rows (grid_size spec) * cols (grid_size spec) \<longrightarrow>
        els ! (2 + k) = triangle_for spec (inner_padded_corner spec)
                          (k div cols (grid_size spec)) (k mod cols (grid_size spec))
                          (color_map_of (bits spec)
                            ! (symbol_indices (bits spec) [73, 0, 0, 0, 0, 0, 0, 0]
                               ! (k - 2 * 2 ^ bits spec)))"
    by blast
  have gen: "generate_hccb block_framer [73] 500 500 ''L'' = Inr ((500, 500), els)"
    using spec res by (simp add: generate_hccb_def)
  have "(15::nat) < 2 * 2 ^ bits spec"
    by (simp add: b3)
  with sync have "els ! (2 + 15) = triangle_for spec (inner_padded_corner spec) 0 15
      (color_map_of (bits spec) ! (15 mod 2 ^ bits spec))"
    by blast
  then have e15: "els ! (2 + 15) = triangle_for spec (inner_padded_corner spec) 0 15 ''#1833DE''"
    by (simp add: b3 color_map_of_def EIGHT_COLOR_MAP_def)
  have "2 * 2 ^ bits spec \<le> (16::nat) \<and> (16::nat) < rows (grid_size spec) * cols (grid_size spec)"
    by (simp add: b3 c24 rows1)
  with payload have "els ! (2 + 16) = triangle_for spec (inner_padded_corner spec)
      (16 div cols (grid_size spec)) (16 mod cols (grid_size spec))
      (color_map_of (bits spec)
        ! (symbol_indices (bits spec) [73, 0, 0, 0, 0, 0, 0, 0] ! (16 - 2 * 2 ^ bits spec)))"
    by blast
  then have e16: "els ! (2 + 16) = triangle_for spec (inner_padded_corner spec) 0 16 ''#FAFD28''"
    by (simp add: b3 c24 symbol_indices_73 color_map_of_def EIGHT_COLOR_MAP_def)
  have l: "length els = 2 + 24 + 2"
    using len by (simp add: c24 rows1)
  have "symbol_indices 3 (frame_blocks 7 [73]) ! 0 = 1"
    by (simp add: frame_73 symbol_indices_73)
  with spec rows1 c24 gen l e15 e16 show ?thesis
    by blast
qed

text \<open>
  C9, amended. For two and three bits per symbol the orchestrator prepends the palette
  written twice, \<open>2 * 2 ^ bits\<close> colours in palette order, to the colours of the data
  symbols and hands the list to the triangle drawer. When the grid has at least that many
  columns and the list fills the grid, \<open>barcode\<close> returns the two frame rectangles, then
  one triangle for each cell, row by row, then the strips. The triangle of position \<open>k\<close>
  below \<open>2 * 2 ^ bits\<close> is that of cell \<open>(0, k)\<close> with palette colour \<open>k mod 2 ^ bits\<close>; every
  later position \<open>k\<close> is the cell \<open>(k div cols, k mod cols)\<close> with the colour of data symbol
  \<open>k - 2 * 2 ^ bits\<close>, which starts in row 0 when the grid is wider than the prefix. Row 0
  is drawn lowest: \<open>triangle_for\<close> puts row \<open>i\<close> at \<open>rows - i - 1\<close> row heights below the
  corner.
\<close>

theorem sync_symbols_placement:
  assumes lvl: "ecc_symbols_of level (length data) = Inr ecc"
    and rs: "apply_reed_solomon lib data ecc = Inr enc"
    and b: "bits spec = 2 \<or> bits spec = 3"
    and wide: "2 * 2 ^ bits spec \<le> cols (grid_size spec)"
    and rows: "1 \<le> rows (grid_size spec)"
    and enough: "rows (grid_size spec) * cols (grid_size spec)
                   \<le> 2 * 2 ^ bits spec + (8 div bits spec) * length enc"
  shows "colors_prefix (bits spec) = color_map_of (bits spec) @ color_map_of (bits spec)
    \<and> length (colors_prefix (bits spec)) = 2 * 2 ^ bits spec
    \<and> colored_data (bits spec) enc =
        Inr (colors_prefix (bits spec)
             @ map (\<lambda>k. color_map_of (bits spec) ! k) (symbol_indices (bits spec) enc))
    \<and> (\<exists>els. barcode lib spec w h data level = Inr ((w, h), els)
        \<and> length els = 2 + rows (grid_size spec) * cols (grid_size spec)
                         + (rows (grid_size spec) + 1)
        \<and> (\<forall>k < 2 * 2 ^ bits spec.
              els ! (2 + k) = triangle_for spec (inner_padded_corner spec) 0 k
                                (color_map_of (bits spec) ! (k mod 2 ^ bits spec)))
        \<and> (\<forall>k. 2 * 2 ^ bits spec \<le> k \<and> k < rows (grid_size spec) * cols (grid_size spec) \<longrightarrow>
              els ! (2 + k) = triangle_for spec (inner_padded_corner spec)
                                (k div cols (grid_size spec)) (k mod cols (grid_size spec))
                                (color_map_of (bits spec)
                                  ! (symbol_indices (bits spec) enc ! (k - 2 * 2 ^ bits spec)))))"
proof (intro conjI)
  show "colors_prefix (bits spec) = color_map_of (bits spec) @ color_map_of (bits spec)"
    by (simp add: colors_prefix_def)
  show "length (colors_prefix (bits spec)) = 2 * 2 ^ bits spec"
    using length_color_map_of [OF b] by (simp add: colors_prefix_def)
  have "bits spec \<noteq> 0"
    using b by auto
  then show "colored_data (bits spec) enc =
        Inr (colors_prefix (bits spec)
             @ map (\<lambda>k. color_map_of (bits spec) ! k) (symbol_indices (bits spec) enc))"
    by (rule colored_data_eq)
  show "\<exists>els. barcode lib spec w h data level = Inr ((w, h), els)
        \<and> length els = 2 + rows (grid_size spec) * cols (grid_size spec)
                         + (rows (grid_size spec) + 1)
        \<and> (\<forall>k < 2 * 2 ^ bits spec.
              els ! (2 + k) = triangle_for spec (inner_padded_corner spec) 0 k
                                (color_map_of (bits spec) ! (k mod 2 ^ bits spec)))
        \<and> (\<forall>k. 2 * 2 ^ bits spec \<le> k \<and> k < rows (grid_size spec) * cols (grid_size spec) \<longrightarrow>
              els ! (2 + k) = triangle_for spec (inner_padded_corner spec)
                                (k div cols (grid_size spec)) (k mod cols (grid_size spec))
                                (color_map_of (bits spec)
                                  ! (symbol_indices (bits spec) enc ! (k - 2 * 2 ^ bits spec))))"
    by (rule barcode_placement [OF lvl rs b wide rows enough])
qed

theorem sync_symbols_placement_witness:
  "ecc_symbols_of ''L'' (length [73::nat]) = Inr 7
   \<and> apply_reed_solomon block_framer [73] 7 = Inr [73, 0, 0, 0, 0, 0, 0, 0]
   \<and> (\<exists>els. barcode block_framer (base_spec\<lparr>grid_size := \<lparr>rows = 1, cols = 24\<rparr>\<rparr>) 500 500 [73] ''L''
              = Inr ((500, 500), els)
        \<and> length els = 28
        \<and> els ! 2 = triangle_for (base_spec\<lparr>grid_size := \<lparr>rows = 1, cols = 24\<rparr>\<rparr>)
                       (inner_padded_corner (base_spec\<lparr>grid_size := \<lparr>rows = 1, cols = 24\<rparr>\<rparr>))
                       0 0 ''#000000''
        \<and> els ! 11 = triangle_for (base_spec\<lparr>grid_size := \<lparr>rows = 1, cols = 24\<rparr>\<rparr>)
                       (inner_padded_corner (base_spec\<lparr>grid_size := \<lparr>rows = 1, cols = 24\<rparr>\<rparr>))
                       0 9 ''#FAFD28'')"
proof -
  let ?spec = "base_spec\<lparr>grid_size := \<lparr>rows = 1, cols = 24\<rparr>\<rparr>"
  have b: "bits ?spec = 2 \<or> bits ?spec = 3"
    by (simp add: base_spec_def)
  have b3: "bits ?spec = 3" "bits base_spec = 3"
    by (simp_all add: base_spec_def)
  have wide: "2 * 2 ^ bits ?spec \<le> cols (grid_size ?spec)"
    by (simp add: base_spec_def)
  have rows: "1 \<le> rows (grid_size ?spec)"
    by simp
  have enough: "rows (grid_size ?spec) * cols (grid_size ?spec)
      \<le> 2 * 2 ^ bits ?spec + (8 div bits ?spec) * length [73, 0, 0, 0, 0, 0, 0, 0::nat]"
    by (simp add: base_spec_def)
  from sync_symbols_placement [OF ecc_symbols_L_1 apply_reed_solomon_73 b wide rows enough,
      of 500 500]
  obtain els where res: "barcode block_framer ?spec 500 500 [73] ''L'' = Inr ((500, 500), els)"
    and len: "length els = 2 + rows (grid_size ?spec) * cols (grid_size ?spec)
                             + (rows (grid_size ?spec) + 1)"
    and sync: "\<forall>k < 2 * 2 ^ bits ?spec.
        els ! (2 + k) = triangle_for ?spec (inner_padded_corner ?spec) 0 k
                          (color_map_of (bits ?spec) ! (k mod 2 ^ bits ?spec))"
    by blast
  have "(0::nat) < 2 * 2 ^ bits ?spec"
    by (simp add: b3)
  with sync have "els ! (2 + 0) = triangle_for ?spec (inner_padded_corner ?spec) 0 0
                          (color_map_of (bits ?spec) ! (0 mod 2 ^ bits ?spec))"
    by blast
  then have e2: "els ! 2 = triangle_for ?spec (inner_padded_corner ?spec) 0 0 ''#000000''"
    by (simp add: b3 color_map_of_def EIGHT_COLOR_MAP_def)
  have "(9::nat) < 2 * 2 ^ bits ?spec"
    by (simp add: b3)
  with sync have "els ! (2 + 9) = triangle_for ?spec (inner_padded_corner ?spec) 0 9
                          (color_map_of (bits ?spec) ! (9 mod 2 ^ bits ?spec))"
    by blast
  then have e11: "els ! 11 = triangle_for ?spec (inner_padded_corner ?spec) 0 9 ''#FAFD28''"
    by (simp add: b3 color_map_of_def EIGHT_COLOR_MAP_def)
  have "length els = 28"
    using len by simp
  with res e2 e11 show ?thesis
    using ecc_symbols_L_1 apply_reed_solomon_73 by blast
qed

section \<open>Colour classifier: proofs\<close>

lemma min_from_split:
  "\<exists>ys zs. best # xs = ys @ min_from key best xs # zs
     \<and> (\<forall>y\<in>set ys. key (min_from key best xs) < key y)
     \<and> (\<forall>z\<in>set zs. key (min_from key best xs) \<le> key z)"
proof (induction xs arbitrary: best)
  case Nil
  have "[best] = [] @ min_from key best [] # []
      \<and> (\<forall>y\<in>set []. key (min_from key best []) < key y)
      \<and> (\<forall>z\<in>set []. key (min_from key best []) \<le> key z)"
    by simp
  then show ?case
    by (rule_tac x = "[]" in exI, rule_tac x = "[]" in exI)
next
  case (Cons x xs)
  show ?case
  proof (cases "key x < key best")
    case True
    define m where "m = min_from key x xs"
    have step: "min_from key best (x # xs) = m"
      using True by (simp add: m_def)
    from Cons.IH [of x] obtain ys zs where split: "x # xs = ys @ m # zs"
      and before: "\<forall>y\<in>set ys. key m < key y" and after: "\<forall>z\<in>set zs. key m \<le> key z"
      unfolding m_def by blast
    have "set (x # xs) = set ys \<union> insert m (set zs)"
      by (subst split) simp
    then have "x \<in> set ys \<or> x = m \<or> x \<in> set zs"
      by auto
    then have "key m \<le> key x"
      using before after by auto
    then have lt: "key m < key best"
      using True by simp
    have "best # x # xs = (best # ys) @ m # zs"
      using split by simp
    moreover have "\<forall>y\<in>set (best # ys). key m < key y"
      using lt before by simp
    ultimately show ?thesis
      unfolding step using after
      by (rule_tac x = "best # ys" in exI, rule_tac x = zs in exI) (intro conjI)
  next
    case False
    define m where "m = min_from key best xs"
    have step: "min_from key best (x # xs) = m"
      using False by (simp add: m_def)
    from Cons.IH [of best] obtain ys zs where split: "best # xs = ys @ m # zs"
      and before: "\<forall>y\<in>set ys. key m < key y" and after: "\<forall>z\<in>set zs. key m \<le> key z"
      unfolding m_def by blast
    show ?thesis
    proof (cases ys)
      case Nil
      then have bm: "best = m" and xz: "xs = zs"
        using split by simp_all
      have "best # x # xs = [] @ m # (x # zs)"
        by (simp add: bm xz)
      moreover have "\<forall>y\<in>set []. key m < key y"
        by simp
      moreover have "\<forall>z\<in>set (x # zs). key m \<le> key z"
        using after False bm by auto
      ultimately show ?thesis
        unfolding step
        by (rule_tac x = "[]" in exI, rule_tac x = "x # zs" in exI) (intro conjI)
    next
      case (Cons y ys')
      then have by': "best = y" and xs: "xs = ys' @ m # zs"
        using split by simp_all
      have "key m < key best"
        using before Cons by' by simp
      then have mx: "key m < key x"
        using False by simp
      have "best # x # xs = (best # x # ys') @ m # zs"
        by (simp add: xs)
      moreover have "\<forall>y\<in>set (best # x # ys'). key m < key y"
        using before Cons by' mx by simp
      ultimately show ?thesis
        unfolding step using after
        by (rule_tac x = "best # x # ys'" in exI, rule_tac x = zs in exI) (intro conjI)
    qed
  qed
qed

lemma py_min_first_minimum:
  assumes "xs \<noteq> []"
  shows "\<exists>i<length xs. py_min key xs = Inr (xs ! i)
           \<and> (\<forall>j<length xs. key (xs ! i) \<le> key (xs ! j))
           \<and> (\<forall>j<i. key (xs ! i) < key (xs ! j))"
proof -
  obtain x rest where xs: "xs = x # rest"
    using assms by (cases xs) auto
  let ?m = "min_from key x rest"
  obtain ys zs where split: "xs = ys @ ?m # zs"
    and before: "\<forall>y\<in>set ys. key ?m < key y" and after: "\<forall>z\<in>set zs. key ?m \<le> key z"
    using min_from_split [of x rest key] xs by blast
  have at: "xs ! length ys = ?m"
    by (simp add: split)
  have len: "length ys < length xs"
    by (simp add: split)
  have sets: "set xs = set ys \<union> insert ?m (set zs)"
    by (subst split) simp
  have le: "\<forall>j<length xs. key ?m \<le> key (xs ! j)"
  proof (intro allI impI)
    fix j assume "j < length xs"
    then have "xs ! j \<in> set xs"
      by simp
    then have "xs ! j \<in> set ys \<or> xs ! j = ?m \<or> xs ! j \<in> set zs"
      unfolding sets by blast
    then show "key ?m \<le> key (xs ! j)"
      using before after by auto
  qed
  have lt: "\<forall>j<length ys. key ?m < key (xs ! j)"
  proof (intro allI impI)
    fix j assume j: "j < length ys"
    then have "xs ! j = ys ! j"
      by (simp add: split nth_append)
    then show "key ?m < key (xs ! j)"
      using before j by simp
  qed
  have "py_min key xs = Inr ?m"
    by (simp add: py_min_def xs)
  with at len le lt show ?thesis
    by auto
qed

lemma list_index_first:
  assumes "v \<in> set xs"
  shows "\<exists>i<length xs. list_index xs v = Inr i \<and> xs ! i = v \<and> (\<forall>j<i. xs ! j \<noteq> v)"
  using assms
proof (induction xs)
  case Nil
  then show ?case by simp
next
  case (Cons x xs)
  show ?case
  proof (cases "x = v")
    case True
    then show ?thesis by simp
  next
    case False
    with Cons.prems have "v \<in> set xs"
      by simp
    from Cons.IH [OF this] obtain i where i: "i < length xs" "list_index xs v = Inr i"
      "xs ! i = v" "\<forall>j<i. xs ! j \<noteq> v"
      by blast
    have "\<forall>j<Suc i. (x # xs) ! j \<noteq> v"
    proof (intro allI impI)
      fix j assume "j < Suc i"
      then show "(x # xs) ! j \<noteq> v"
        using False i(4) by (cases j) simp_all
    qed
    with i False show ?thesis
      by (intro exI [of _ "Suc i"]) simp
  qed
qed

lemma closest_index_nearest:
  assumes "color_map \<noteq> []"
  shows "\<exists>i<length color_map. closest_index color_map c = Inr i
           \<and> (\<forall>j<length color_map. euclidean (color_map ! i) c \<le> euclidean (color_map ! j) c)
           \<and> (\<forall>j<i. euclidean (color_map ! i) c < euclidean (color_map ! j) c)"
proof -
  let ?key = "\<lambda>p. euclidean p c"
  obtain i where i: "i < length color_map" "py_min ?key color_map = Inr (color_map ! i)"
    "\<forall>j<length color_map. ?key (color_map ! i) \<le> ?key (color_map ! j)"
    "\<forall>j<i. ?key (color_map ! i) < ?key (color_map ! j)"
    using py_min_first_minimum [OF assms, of ?key] by blast
  have "color_map ! i \<in> set color_map"
    using i(1) by simp
  from list_index_first [OF this] obtain k where k: "k < length color_map"
    "list_index color_map (color_map ! i) = Inr k" "color_map ! k = color_map ! i"
    "\<forall>j<k. color_map ! j \<noteq> color_map ! i"
    by blast
  have "\<not> k < i"
    using i(4) k(3) by force
  moreover have "\<not> i < k"
    using k(4) by blast
  ultimately have "k = i"
    by simp
  then have "closest_index color_map c = Inr i"
    using i(2) k(2) by (simp add: closest_index_def)
  with i show ?thesis
    by blast
qed

lemma euclidean_eq_0_iff: "euclidean p c = 0 \<longleftrightarrow> p = c"
proof -
  obtain p0 p1 p2 c0 c1 c2 where pc: "p = (p0, p1, p2)" "c = (c0, c1, c2)"
    by (metis prod_cases3)
  have "(p0 - c0)\<^sup>2 + (p1 - c1)\<^sup>2 + (p2 - c2)\<^sup>2 = 0 \<longleftrightarrow> p0 = c0 \<and> p1 = c1 \<and> p2 = c2"
    by (simp add: sum_power2_eq_zero_iff add_nonneg_eq_0_iff)
  then show ?thesis
    by (simp add: euclidean_def pc)
qed

lemma closest_index_exact:
  assumes "distinct color_map" and "k < length color_map"
  shows "closest_index color_map (color_map ! k) = Inr k"
proof -
  let ?c = "color_map ! k"
  have "color_map \<noteq> []"
    using assms(2) by auto
  from closest_index_nearest [OF this, of ?c] obtain i where i: "i < length color_map"
    "closest_index color_map ?c = Inr i"
    "\<forall>j<length color_map. euclidean (color_map ! i) ?c \<le> euclidean (color_map ! j) ?c"
    by blast
  have "euclidean (color_map ! i) ?c \<le> euclidean ?c ?c"
    using i(3) assms(2) by blast
  moreover have "euclidean ?c ?c = 0"
    by (simp add: euclidean_eq_0_iff)
  moreover have "0 \<le> euclidean (color_map ! i) ?c"
    by (cases "color_map ! i"; cases ?c) (simp add: euclidean_def)
  ultimately have "euclidean (color_map ! i) ?c = 0"
    by simp
  then have "color_map ! i = ?c"
    by (simp add: euclidean_eq_0_iff)
  then have "i = k"
    using assms i(1) by (simp add: nth_eq_iff_index_eq)
  with i(2) show ?thesis
    by simp
qed

lemma reader_color_map_distinct: "distinct (reader_color_map b)" "reader_color_map b \<noteq> []"
  by (simp_all add: reader_color_map_def READER_EIGHT_COLOR_MAP_def READER_FOUR_COLOR_MAP_def)


lemma classify_color_nearest:
  assumes "py < img_height img" and "px < img_width img"
  shows "\<exists>i<length COLOR_MAP. classify_color img px py = Inr (fst (COLOR_MAP ! i))
     \<and> (\<forall>j<length COLOR_MAP. euclidean (pixel img py px) (snd (COLOR_MAP ! i))
                                \<le> euclidean (pixel img py px) (snd (COLOR_MAP ! j)))
     \<and> (\<forall>j<i. euclidean (pixel img py px) (snd (COLOR_MAP ! i))
                < euclidean (pixel img py px) (snd (COLOR_MAP ! j)))"
proof -
  let ?c = "pixel img py px"
  define distances where "distances = map (\<lambda>(name, rgb). (name, euclidean ?c rgb)) COLOR_MAP"
  have len: "length distances = length COLOR_MAP"
    by (simp add: distances_def)
  have entry: "distances ! j = (fst (COLOR_MAP ! j), euclidean ?c (snd (COLOR_MAP ! j)))"
    if "j < length COLOR_MAP" for j
    using that by (simp add: distances_def case_prod_unfold)
  have "distances \<noteq> []"
    by (simp add: distances_def COLOR_MAP_def)
  from py_min_first_minimum [OF this, of snd] obtain i where i: "i < length distances"
    "py_min snd distances = Inr (distances ! i)"
    "\<forall>j<length distances. snd (distances ! i) \<le> snd (distances ! j)"
    "\<forall>j<i. snd (distances ! i) < snd (distances ! j)"
    by blast
  have i': "i < length COLOR_MAP"
    using i(1) len by simp
  have res: "classify_color img px py = Inr (fst (COLOR_MAP ! i))"
    using assms i(2) entry [OF i']
    by (simp add: classify_color_def distances_def [symmetric] Let_def)
  have le: "\<forall>j<length COLOR_MAP. euclidean ?c (snd (COLOR_MAP ! i))
                                \<le> euclidean ?c (snd (COLOR_MAP ! j))"
    using i(3) entry i' len by simp
  have lt: "\<forall>j<i. euclidean ?c (snd (COLOR_MAP ! i)) < euclidean ?c (snd (COLOR_MAP ! j))"
    using i(4) entry i' by simp
  from i' res le lt show ?thesis
    by blast
qed

lemma classify_cells_result:
  assumes "color_map \<noteq> []"
  shows "\<exists>ks. classify_cells color_map img cells = Inr ks \<and> length ks = length cells
     \<and> (\<forall>n<length cells.
           closest_index color_map (block_mean img (fst (cells ! n) * 25) (snd (cells ! n) * 25))
             = Inr (ks ! n))"
proof (induction cells)
  case Nil
  show ?case by simp
next
  case (Cons cell cells)
  obtain i j where cell: "cell = (i, j)"
    by (cases cell)
  obtain k where k: "closest_index color_map (block_mean img (i * 25) (j * 25)) = Inr k"
    using closest_index_nearest [OF assms] by blast
  from Cons.IH obtain ks where ks: "classify_cells color_map img cells = Inr ks"
    "length ks = length cells"
    "\<forall>n<length cells.
       closest_index color_map (block_mean img (fst (cells ! n) * 25) (snd (cells ! n) * 25))
         = Inr (ks ! n)"
    by blast
  have "\<forall>n<length (cell # cells).
       closest_index color_map
         (block_mean img (fst ((cell # cells) ! n) * 25) (snd ((cell # cells) ! n) * 25))
         = Inr ((k # ks) ! n)"
  proof (intro allI impI)
    fix n assume "n < length (cell # cells)"
    then show "closest_index color_map
         (block_mean img (fst ((cell # cells) ! n) * 25) (snd ((cell # cells) ! n) * 25))
         = Inr ((k # ks) ! n)"
      using k ks(3) cell by (cases n) simp_all
  qed
  moreover have "classify_cells color_map img (cell # cells) = Inr (k # ks)"
    by (simp add: cell k ks(1))
  moreover have "length (k # ks) = length (cell # cells)"
    by (simp add: ks(2))
  ultimately show ?case
    by blast
qed

lemma cell_of_position:
  assumes "n < r * c"
  shows "List.product [0..<r] [0..<c] ! n = (n div c, n mod c)"
proof -
  have c: "0 < c"
    using assms by (cases c) simp_all
  have "n div c < r"
    using assms by (simp add: less_mult_imp_div_less)
  moreover have "n mod c < c"
    using c by simp
  moreover have "List.product [0..<r] [0..<c] ! n = ([0..<r] ! (n div c), [0..<c] ! (n mod c))"
    using product_nth [of n "[0..<r]" "[0..<c]"] assms by simp
  ultimately show ?thesis
    by simp
qed

lemma recognize_hccb_result:
  "\<exists>ks. recognize_hccb img b = Inr ks
     \<and> length ks = (img_height img div 25) * (img_width img div 25)
     \<and> (\<forall>n<(img_height img div 25) * (img_width img div 25).
           closest_index (reader_color_map b)
             (block_mean img (n div (img_width img div 25) * 25)
                             (n mod (img_width img div 25) * 25))
             = Inr (ks ! n))"
proof -
  let ?r = "img_height img div 25" and ?c = "img_width img div 25"
  let ?cells = "List.product [0..<?r] [0..<?c]"
  from classify_cells_result [OF reader_color_map_distinct(2), of b img ?cells]
  obtain ks where ks: "classify_cells (reader_color_map b) img ?cells = Inr ks"
    "length ks = length ?cells"
    "\<forall>n<length ?cells.
       closest_index (reader_color_map b)
         (block_mean img (fst (?cells ! n) * 25) (snd (?cells ! n) * 25)) = Inr (ks ! n)"
    by blast
  have "\<forall>n<?r * ?c.
       closest_index (reader_color_map b) (block_mean img (n div ?c * 25) (n mod ?c * 25))
         = Inr (ks ! n)"
  proof (intro allI impI)
    fix n assume n: "n < ?r * ?c"
    then have "closest_index (reader_color_map b)
         (block_mean img (fst (?cells ! n) * 25) (snd (?cells ! n) * 25)) = Inr (ks ! n)"
      using ks(3) by simp
    then show "closest_index (reader_color_map b)
         (block_mean img (n div ?c * 25) (n mod ?c * 25)) = Inr (ks ! n)"
      by (simp add: cell_of_position [OF n])
  qed
  moreover have "recognize_hccb img b = Inr ks"
    by (simp add: recognize_hccb_def Let_def ks(1))
  moreover have "length ks = ?r * ?c"
    by (simp add: ks(2))
  ultimately show ?thesis
    by blast
qed

text \<open>
  C8. For every sample the classifier of \<open>recognize_hccb\<close> returns an index of the palette
  whose entry is at the least Euclidean distance from the sample, and every entry before
  it is strictly farther: among equidistant entries the lowest index is chosen. A sample
  equal to palette entry \<open>k\<close> is classified as \<open>k\<close>, at distance zero. \<open>recognize_hccb\<close>
  returns such an index for the mean colour of every cell, and \<open>classify_color\<close> returns
  the name of such an entry for the pixel it reads.
\<close>

theorem classifier_nearest:
  "(\<exists>i<length (reader_color_map b). closest_index (reader_color_map b) c = Inr i
       \<and> (\<forall>j<length (reader_color_map b).
             euclidean (reader_color_map b ! i) c \<le> euclidean (reader_color_map b ! j) c)
       \<and> (\<forall>j<i. euclidean (reader_color_map b ! i) c < euclidean (reader_color_map b ! j) c))
   \<and> (\<forall>k<length (reader_color_map b).
         closest_index (reader_color_map b) (reader_color_map b ! k) = Inr k
         \<and> euclidean (reader_color_map b ! k) (reader_color_map b ! k) = 0)
   \<and> (\<exists>ks. recognize_hccb img b = Inr ks
         \<and> length ks = (img_height img div 25) * (img_width img div 25)
         \<and> (\<forall>n<(img_height img div 25) * (img_width img div 25).
               closest_index (reader_color_map b)
                 (block_mean img (n div (img_width img div 25) * 25)
                                 (n mod (img_width img div 25) * 25))
                 = Inr (ks ! n)))
   \<and> (py < img_height img \<and> px < img_width img \<longrightarrow>
        (\<exists>i<length COLOR_MAP. classify_color img px py = Inr (fst (COLOR_MAP ! i))
           \<and> (\<forall>j<length COLOR_MAP. euclidean (pixel img py px) (snd (COLOR_MAP ! i))
                                      \<le> euclidean (pixel img py px) (snd (COLOR_MAP ! j)))
           \<and> (\<forall>j<i. euclidean (pixel img py px) (snd (COLOR_MAP ! i))
                      < euclidean (pixel img py px) (snd (COLOR_MAP ! j)))))"
proof (intro conjI allI impI)
  show "\<exists>i<length (reader_color_map b). closest_index (reader_color_map b) c = Inr i
       \<and> (\<forall>j<length (reader_color_map b).
             euclidean (reader_color_map b ! i) c \<le> euclidean (reader_color_map b ! j) c)
       \<and> (\<forall>j<i. euclidean (reader_color_map b ! i) c < euclidean (reader_color_map b ! j) c)"
    by (rule closest_index_nearest [OF reader_color_map_distinct(2)])
next
  fix k assume "k < length (reader_color_map b)"
  then show "closest_index (reader_color_map b) (reader_color_map b ! k) = Inr k"
    by (rule closest_index_exact [OF reader_color_map_distinct(1)])
next
  fix k
  show "euclidean (reader_color_map b ! k) (reader_color_map b ! k) = 0"
    by (simp add: euclidean_eq_0_iff)
next
  show "\<exists>ks. recognize_hccb img b = Inr ks
         \<and> length ks = (img_height img div 25) * (img_width img div 25)
         \<and> (\<forall>n<(img_height img div 25) * (img_width img div 25).
               closest_index (reader_color_map b)
                 (block_mean img (n div (img_width img div 25) * 25)
                                 (n mod (img_width img div 25) * 25))
                 = Inr (ks ! n))"
    by (rule recognize_hccb_result)
next
  assume "py < img_height img \<and> px < img_width img"
  then show "\<exists>i<length COLOR_MAP. classify_color img px py = Inr (fst (COLOR_MAP ! i))
           \<and> (\<forall>j<length COLOR_MAP. euclidean (pixel img py px) (snd (COLOR_MAP ! i))
                                      \<le> euclidean (pixel img py px) (snd (COLOR_MAP ! j)))
           \<and> (\<forall>j<i. euclidean (pixel img py px) (snd (COLOR_MAP ! i))
                      < euclidean (pixel img py px) (snd (COLOR_MAP ! j)))"
    using classify_color_nearest by blast
qed

theorem classifier_nearest_witness:
  "(4::nat) < length (reader_color_map 3)
   \<and> reader_color_map 3 ! 4 = (250, 250, 250)
   \<and> closest_index (reader_color_map 3) (250, 250, 250) = Inr 4
   \<and> euclidean (250, 250, 250) (250, 250, 250) = 0"
proof -
  have len: "(4::nat) < length (reader_color_map 3)"
    by (simp add: reader_color_map_def READER_EIGHT_COLOR_MAP_def)
  have at: "reader_color_map 3 ! 4 = (250, 250, 250)"
    by (simp add: reader_color_map_def READER_EIGHT_COLOR_MAP_def)
  from classifier_nearest [of 3]
  have "\<forall>k<length (reader_color_map 3).
         closest_index (reader_color_map 3) (reader_color_map 3 ! k) = Inr k
         \<and> euclidean (reader_color_map 3 ! k) (reader_color_map 3 ! k) = 0"
    by blast
  with len have "closest_index (reader_color_map 3) (reader_color_map 3 ! 4) = Inr 4
         \<and> euclidean (reader_color_map 3 ! 4) (reader_color_map 3 ! 4) = 0"
    by blast
  with len at show ?thesis
    by simp
qed

section \<open>Decode-side packer: proofs\<close>

lemma groups_of_8_Nil: "groups_of_8 [] = []"
  by (simp add: groups_of_8.simps)

lemma groups_of_8_Cons: "bs \<noteq> [] \<Longrightarrow> groups_of_8 bs = take 8 bs # groups_of_8 (drop 8 bs)"
  by (subst groups_of_8.simps) simp

lemma length_groups_of_8: "length (groups_of_8 bs) = (length bs + 7) div 8"
proof (induction bs rule: groups_of_8.induct)
  case (1 bs)
  show ?case
  proof (cases "bs = []")
    case True
    then show ?thesis
      by (simp add: groups_of_8_Nil)
  next
    case False
    then have pos: "Suc 0 \<le> length bs"
      by (cases bs) simp_all
    have "length (groups_of_8 bs) = Suc ((length bs - 8 + 7) div 8)"
      using False "1.IH" by (simp add: groups_of_8_Cons)
    also have "\<dots> = (length bs + 7) div 8"
    proof (cases "8 \<le> length bs")
      case True
      then have "length bs + 7 = (length bs - 8 + 7) + 8"
        by simp
      then show ?thesis
        by (metis add.commute div_add_self1 plus_1_eq_Suc zero_neq_numeral)
    next
      case False
      then have small: "length bs - 8 = 0"
        by simp
      have lo: "8 * 1 \<le> length bs + 7"
        using pos by simp
      have hi: "length bs + 7 < 8 * Suc 1"
        using False by simp
      have "(length bs + 7) div 8 = 1"
        using lo hi by (rule div_nat_eqI)
      with small show ?thesis
        by simp
    qed
    finally show ?thesis .
  qed
qed

lemma nth_groups_of_8:
  "i < length (groups_of_8 bs) \<Longrightarrow> groups_of_8 bs ! i = take 8 (drop (8 * i) bs)"
proof (induction bs arbitrary: i rule: groups_of_8.induct)
  case (1 bs)
  have nonempty: "bs \<noteq> []"
    using "1.prems" by (auto simp add: groups_of_8_Nil)
  show ?case
  proof (cases i)
    case 0
    then show ?thesis
      by (simp add: groups_of_8_Cons [OF nonempty])
  next
    case (Suc n)
    then have "n < length (groups_of_8 (drop 8 bs))"
      using "1.prems" by (simp add: groups_of_8_Cons [OF nonempty])
    from "1.IH" [OF nonempty this]
    have "groups_of_8 (drop 8 bs) ! n = take 8 (drop (8 * n) (drop 8 bs))" .
    then show ?thesis
      by (simp add: Suc groups_of_8_Cons [OF nonempty] add.commute)
  qed
qed

lemma below_8: "k < 8 \<Longrightarrow> k = 0 \<or> k = 1 \<or> k = 2 \<or> k = 3 \<or> k = 4 \<or> k = 5 \<or> k = 6 \<or> k = (7::nat)"
  by arith

lemma symbol_bits_index:
  assumes "k < 8"
  shows "symbol_bits (COLOR_LIST ! k) = Inr (format_b (if k < 4 then 2 else 3) k)"
proof -
  have "symbol_bits (COLOR_LIST ! 0) = Inr (format_b 2 0)"
    "symbol_bits (COLOR_LIST ! 1) = Inr (format_b 2 1)"
    "symbol_bits (COLOR_LIST ! 2) = Inr (format_b 2 2)"
    "symbol_bits (COLOR_LIST ! 3) = Inr (format_b 2 3)"
    "symbol_bits (COLOR_LIST ! 4) = Inr (format_b 3 4)"
    "symbol_bits (COLOR_LIST ! 5) = Inr (format_b 3 5)"
    "symbol_bits (COLOR_LIST ! 6) = Inr (format_b 3 6)"
    "symbol_bits (COLOR_LIST ! 7) = Inr (format_b 3 7)"
    by code_simp+
  then show ?thesis
    using below_8 [OF assms] by auto
qed

lemma format_b_index:
  assumes "k < 8"
  shows "length (format_b (if k < 4 then 2 else 3) k) = (if k < 4 then 2 else 3)"
    and "from_binary (format_b (if k < 4 then 2 else 3) k) = k"
proof -
  have "length (format_b 2 0) = 2" "length (format_b 2 1) = 2" "length (format_b 2 2) = 2"
    "length (format_b 2 3) = 2" "length (format_b 3 4) = 3" "length (format_b 3 5) = 3"
    "length (format_b 3 6) = 3" "length (format_b 3 7) = 3"
    by code_simp+
  then show "length (format_b (if k < 4 then 2 else 3) k) = (if k < 4 then 2 else 3)"
    using below_8 [OF assms] by auto
  have "from_binary (format_b 2 0) = 0" "from_binary (format_b 2 1) = 1"
    "from_binary (format_b 2 2) = 2" "from_binary (format_b 2 3) = 3"
    "from_binary (format_b 3 4) = 4" "from_binary (format_b 3 5) = 5"
    "from_binary (format_b 3 6) = 6" "from_binary (format_b 3 7) = 7"
    by code_simp+
  then show "from_binary (format_b (if k < 4 then 2 else 3) k) = k"
    using below_8 [OF assms] by auto
qed

lemma color_bits_indices:
  assumes "\<forall>k\<in>set ks. k < 8"
  shows "color_bits (map (\<lambda>k. COLOR_LIST ! k) ks)
     = Inr (concat (map (\<lambda>k. format_b (if k < 4 then 2 else 3) k) ks))"
  using assms
proof (induction ks)
  case Nil
  show ?case by simp
next
  case (Cons k ks)
  then have "k < 8" and "\<forall>k\<in>set ks. k < 8"
    by simp_all
  then show ?case
    using Cons.IH by (simp add: symbol_bits_index)
qed


lemma last_group_incomplete:
  assumes "length bs mod 8 \<noteq> 0"
  shows "last (groups_of_8 bs) = drop (length bs - length bs mod 8) bs"
proof -
  define q where "q = length bs div 8"
  define r where "r = length bs mod 8"
  have L: "length bs = 8 * q + r"
    by (simp add: q_def r_def)
  have r: "0 < r" "r < 8"
    using assms by (simp_all add: r_def)
  have lo: "8 * Suc q \<le> length bs + 7"
    using L r by simp
  have hi: "length bs + 7 < 8 * Suc (Suc q)"
    using L r by simp
  have "(length bs + 7) div 8 = Suc q"
    using lo hi by (rule div_nat_eqI)
  then have n: "length (groups_of_8 bs) = Suc q"
    by (simp add: length_groups_of_8)
  then have "groups_of_8 bs \<noteq> []"
    by auto
  then have "last (groups_of_8 bs) = groups_of_8 bs ! q"
    using n by (simp add: last_conv_nth)
  also have "\<dots> = take 8 (drop (8 * q) bs)"
    using n by (intro nth_groups_of_8) simp
  also have "\<dots> = drop (8 * q) bs"
    using L r by simp
  also have "8 * q = length bs - length bs mod 8"
    using L by (simp add: r_def)
  finally show ?thesis .
qed

text \<open>
  C10, as stated, fails: the single colour WHITE gives the three bits 1 0 0, fewer than
  eight, and \<open>decode_colors\<close> returns the byte 4 for them, not the empty byte sequence.
\<close>

theorem decode_colors_keeps_last_group_counterexample:
  "color_bits (concat [[''WHITE'']]) = Inr [1, 0, 0]
   \<and> decode_colors [[''WHITE'']] = Inr [4]
   \<and> decode_colors [[''WHITE'']] \<noteq> Inr []"
proof -
  have "color_bits (concat [[''WHITE'']]) = Inr [1, 0, 0]"
    by code_simp
  moreover have "decode_colors [[''WHITE'']] = Inr [4]"
    by code_simp
  ultimately show ?thesis
    by simp
qed

text \<open>
  C10, amended. \<open>decode_colors\<close> concatenates the bits of the symbol indices of all rows,
  two bits for the indices 0 to 3 and three bits for the indices 4 to 7, and cuts the bit
  sequence into groups of eight from the front; every group gives one byte, its bits read
  as a binary number. There are \<open>ceil(n / 8)\<close> bytes for \<open>n\<close> bits: a last group of fewer
  than eight bits is kept and gives the last byte.
\<close>

theorem decode_colors_groups:
  assumes idx: "\<forall>row\<in>set index_grid. \<forall>k\<in>set row. k < 8"
    and bs: "bs = concat (map (\<lambda>k. format_b (if k < 4 then 2 else 3) k) (concat index_grid))"
  shows "decode_colors (map (map (\<lambda>k. COLOR_LIST ! k)) index_grid)
           = Inr (map from_binary (groups_of_8 bs))
    \<and> length (groups_of_8 bs) = (length bs + 7) div 8
    \<and> (\<forall>i<length (groups_of_8 bs). groups_of_8 bs ! i = take 8 (drop (8 * i) bs))
    \<and> (length bs mod 8 \<noteq> 0 \<longrightarrow>
          last (map from_binary (groups_of_8 bs))
            = from_binary (drop (length bs - length bs mod 8) bs))"
proof (intro conjI allI impI)
  have "\<forall>k\<in>set (concat index_grid). k < 8"
    using idx by auto
  then have "color_bits (map (\<lambda>k. COLOR_LIST ! k) (concat index_grid)) = Inr bs"
    unfolding bs by (rule color_bits_indices)
  then show "decode_colors (map (map (\<lambda>k. COLOR_LIST ! k)) index_grid)
           = Inr (map from_binary (groups_of_8 bs))"
    by (simp add: decode_colors_def map_concat)
  show "length (groups_of_8 bs) = (length bs + 7) div 8"
    by (rule length_groups_of_8)
next
  fix i assume "i < length (groups_of_8 bs)"
  then show "groups_of_8 bs ! i = take 8 (drop (8 * i) bs)"
    by (rule nth_groups_of_8)
next
  assume part: "length bs mod 8 \<noteq> 0"
  then have "bs \<noteq> []"
    by auto
  then have "groups_of_8 bs \<noteq> []"
    by (simp add: groups_of_8_Cons)
  then have "last (map from_binary (groups_of_8 bs)) = from_binary (last (groups_of_8 bs))"
    by (rule last_map)
  then show "last (map from_binary (groups_of_8 bs))
            = from_binary (drop (length bs - length bs mod 8) bs)"
    by (simp add: last_group_incomplete [OF part])
qed

theorem decode_colors_groups_witness:
  "decode_colors [[''WHITE'', ''RED''], [''BLUE'', ''PINK'']] = Inr [159, 6]"
proof -
  let ?grid = "[[4, 3], [7, 6::nat]]"
  let ?bs = "concat (map (\<lambda>k. format_b (if k < 4 then 2 else 3) k) (concat ?grid))"
  have idx: "\<forall>row\<in>set ?grid. \<forall>k\<in>set row. k < 8"
    by simp
  have names: "map (map (\<lambda>k. COLOR_LIST ! k)) ?grid = [[''WHITE'', ''RED''], [''BLUE'', ''PINK'']]"
    by code_simp
  have bytes: "map from_binary (groups_of_8 ?bs) = [159, 6]"
    by code_simp
  from decode_colors_groups [OF idx refl]
  have "decode_colors (map (map (\<lambda>k. COLOR_LIST ! k)) ?grid)
          = Inr (map from_binary (groups_of_8 ?bs))"
    by blast
  then show ?thesis
    unfolding names bytes .
qed

end
